theory Spec2Isabelle
  imports Complex_Main "HOL-Library.AList"
begin

section \<open>Numbers\<close>

text \<open>
  The TypeScript \<^verbatim>\<open>number\<close> is an IEEE-754 binary64 double.  A double is modelled by the
  real number it stands for: the finite doubles are the multiples \<open>m * 2 ^ i\<close> of a power of
  two with \<open>\<bar>m\<bar> \<le> 2 ^ 53\<close> and \<open>- 1074 \<le> i\<close>, and every operation of the source is the
  exact operation on these reals followed by rounding to the nearest double, halves to
  the even neighbour (\<open>rnd\<close>).  \<open>ulp x\<close> is the distance between neighbouring doubles at
  the magnitude of \<open>x\<close>: \<open>2 ^ (e - 52)\<close> for \<open>2 ^ e \<le> \<bar>x\<bar> < 2 ^ (e + 1)\<close>, and \<open>2 ^ (- 1074)\<close>
  in the subnormal range below \<open>2 ^ (- 1022)\<close>.

  The model has the finite doubles only.  Its exponent is not bounded above, so it is the
  arithmetic of the source as long as no result exceeds the largest finite double (where
  JavaScript gives an infinity); the two zeros are one number; and a quotient by zero,
  which is an infinity or NaN in JavaScript, is 0 here.  The theorems about arithmetic
  carry the bounds that keep the source inside this range, and those about the clock
  assume \<open>0 < tickMs\<close>.  \<open>dbl x\<close> is the double nearest to the real \<open>x\<close>: the value of a
  decimal literal of the source or of a number read from the program text.
\<close>

definition p2 :: "int \<Rightarrow> real" where
  "p2 k = 2 powr of_int k"

definition roundHalfEven :: "real \<Rightarrow> int" where
  "roundHalfEven x =
     (let f = \<lfloor>x\<rfloor>; r = x - of_int f
      in if r < 1 / 2 then f else if 1 / 2 < r then f + 1 else if even f then f else f + 1)"

definition expo :: "real \<Rightarrow> int" where
  "expo x = max \<lfloor>log 2 \<bar>x\<bar>\<rfloor> (- 1022)"

definition ulp :: "real \<Rightarrow> real" where
  "ulp x = p2 (expo x - 52)"

definition rnd :: "real \<Rightarrow> real" where
  "rnd x = (if x = 0 then 0 else of_int (roundHalfEven (x / ulp x)) * ulp x)"

text \<open>The doubles are the reals that rounding leaves as they are.\<close>

typedef double = "{x :: real. rnd x = x}"
  by (rule exI [of _ 0]) (simp add: rnd_def)

definition val :: "double \<Rightarrow> real" where
  "val a = Rep_double a"

definition dbl :: "real \<Rightarrow> double" where
  "dbl x = Abs_double (rnd x)"

text \<open>
  The operations of the source on numbers: \<^verbatim>\<open>+\<close>, \<^verbatim>\<open>-\<close>, \<^verbatim>\<open>*\<close>, \<^verbatim>\<open>/\<close> round the exact
  result; the comparisons, and with them \<^verbatim>\<open>Math.min\<close> and \<^verbatim>\<open>Math.max\<close>, are those of the
  values.
\<close>

instantiation double :: "{zero, one, plus, minus, times, inverse, linorder}"
begin

definition zero_double :: double where
  "zero_double = dbl 0"

definition one_double :: double where
  "one_double = dbl 1"

definition plus_double :: "double \<Rightarrow> double \<Rightarrow> double" where
  "plus_double a b = dbl (val a + val b)"

definition minus_double :: "double \<Rightarrow> double \<Rightarrow> double" where
  "minus_double a b = dbl (val a - val b)"

definition times_double :: "double \<Rightarrow> double \<Rightarrow> double" where
  "times_double a b = dbl (val a * val b)"

definition divide_double :: "double \<Rightarrow> double \<Rightarrow> double" where
  "divide_double a b = dbl (val a / val b)"

definition inverse_double :: "double \<Rightarrow> double" where
  "inverse_double a = dbl (1 / val a)"

definition less_eq_double :: "double \<Rightarrow> double \<Rightarrow> bool" where
  "less_eq_double a b = (val a \<le> val b)"

definition less_double :: "double \<Rightarrow> double \<Rightarrow> bool" where
  "less_double a b = (val a < val b)"

instance
proof
  fix a b c :: double
  show "(a < b) = (a \<le> b \<and> \<not> b \<le> a)"
    by (auto simp: less_eq_double_def less_double_def)
  show "a \<le> a"
    by (simp add: less_eq_double_def)
  show "a \<le> b \<Longrightarrow> b \<le> c \<Longrightarrow> a \<le> c"
    by (simp add: less_eq_double_def)
  show "a \<le> b \<Longrightarrow> b \<le> a \<Longrightarrow> a = b"
    by (simp add: less_eq_double_def val_def Rep_double_inject)
  show "a \<le> b \<or> b \<le> a"
    by (auto simp: less_eq_double_def)
qed

end

section \<open>Data model of \<^verbatim>\<open>src/lattice.tsx\<close>\<close>

text \<open>
  Every \<^verbatim>\<open>number\<close> of the source is a \<^typ>\<open>double\<close>; a literal \<^verbatim>\<open>6\<close> of the source is
  \<open>dbl 6\<close>, and \<^verbatim>\<open>0\<close> and \<^verbatim>\<open>1\<close> are the doubles \<open>0\<close> and \<open>1\<close>.  Field names
  that would clash with variables or HOL constants carry a prefix: \<^verbatim>\<open>x, y, w, h\<close> of
  \<^verbatim>\<open>Rect\<close> are \<open>rect_x\<close>, \<open>rect_y\<close>, \<open>rect_w\<close>, \<open>rect_h\<close>; \<^verbatim>\<open>top, right, bottom, left\<close>
  are \<open>edge_top\<close>, ...; \<^verbatim>\<open>id\<close> is \<open>patch_id\<close>; the overlay's \<^verbatim>\<open>a\<close> and \<^verbatim>\<open>b\<close> are
  \<open>ov_a\<close> and \<open>ov_b\<close>.
\<close>

datatype EdgeKind = EdgeX | EdgeZ

type_synonym PatchId = string

record Rect =
  rect_x :: double
  rect_y :: double
  rect_w :: double
  rect_h :: double

record Edges =
  edge_top :: EdgeKind
  edge_right :: EdgeKind
  edge_bottom :: EdgeKind
  edge_left :: EdgeKind

text \<open>\<^verbatim>\<open>keyof Patch["edges"]\<close>: the name of one of the four faces.\<close>

datatype EdgeName = FaceTop | FaceRight | FaceBottom | FaceLeft

record Patch =
  patch_id :: PatchId
  rect :: Rect
  edges :: Edges
  label :: "string option"

text \<open>\<^verbatim>\<open>type RuntimePatch = Patch & { _animFrom?: Rect; _animTo?: Rect }\<close>\<close>

record RuntimePatch = Patch +
  animFrom :: "Rect option"
  animTo :: "Rect option"

record Point =
  point_x :: double
  point_y :: double

text \<open>The literal types \<^verbatim>\<open>1 | -1\<close> (an outcome) and \<^verbatim>\<open>1 | 0\<close> (a tick cost).\<close>

datatype Outcome = OutcomePlus | OutcomeMinus

datatype TickCost = CostOne | CostZero

record MeasSide =
  side_id :: PatchId
  side_edge :: EdgeName

datatype Action =
    InitPatch Patch
  | DeformTo PatchId Rect "TickCost option"
  | MoveTo PatchId Point "TickCost option"
  | TwoPatchMeas MeasSide MeasSide "Outcome option"
  | SinglePatchMeas PatchId EdgeKind "Outcome option"
  | RotateEdges PatchId
  | Discard PatchId

record Step =
  actions :: "Action list"
  step_label :: "string option"

record Grid =
  cols :: double
  rows :: double

record Program =
  tickMs :: double
  grid :: Grid
  steps :: "Step list"

section \<open>Utility functions\<close>

definition clamp01 :: "double \<Rightarrow> double" where
  "clamp01 v = min 1 (max 0 v)"

definition lerp :: "double \<Rightarrow> double \<Rightarrow> double \<Rightarrow> double" where
  "lerp a b t = a + (b - a) * t"

definition lerpRect :: "Rect \<Rightarrow> Rect \<Rightarrow> double \<Rightarrow> Rect" where
  "lerpRect a b t =
     \<lparr>rect_x = lerp (rect_x a) (rect_x b) t, rect_y = lerp (rect_y a) (rect_y b) t,
      rect_w = lerp (rect_w a) (rect_w b) t, rect_h = lerp (rect_h a) (rect_h b) t\<rparr>"

definition edgeMidpoint :: "Rect \<Rightarrow> EdgeName \<Rightarrow> Point" where
  "edgeMidpoint r e =
     (case e of
        FaceTop \<Rightarrow> \<lparr>point_x = rect_x r + rect_w r / dbl 2, point_y = rect_y r\<rparr>
      | FaceBottom \<Rightarrow> \<lparr>point_x = rect_x r + rect_w r / dbl 2, point_y = rect_y r + rect_h r\<rparr>
      | FaceLeft \<Rightarrow> \<lparr>point_x = rect_x r, point_y = rect_y r + rect_h r / dbl 2\<rparr>
      | FaceRight \<Rightarrow> \<lparr>point_x = rect_x r + rect_w r, point_y = rect_y r + rect_h r / dbl 2\<rparr>)"

section \<open>The object store\<close>

text \<open>
  Patches are JavaScript objects: the patch map holds references to them, and so does the
  measurement overlay (\<^verbatim>\<open>a\<close> and \<^verbatim>\<open>b\<close> are the very objects found in the map by
  \<^verbatim>\<open>prepareTick\<close>).  The store maps an address to the object that lives there; \<open>nxt\<close>
  is the first address never handed out, so that an allocation is fresh.  Rectangles and
  edge records are never shared between two patches (every assignment of one writes a new
  object or a \<^verbatim>\<open>deepCopy\<close>), so they are held by value inside the patch.
\<close>

type_synonym addr = nat

record Heap =
  cells :: "addr \<Rightarrow> RuntimePatch"
  nxt :: addr

definition alloc :: "RuntimePatch \<Rightarrow> Heap \<Rightarrow> addr \<times> Heap" where
  "alloc v H = (nxt H, \<lparr>cells = (cells H)(nxt H := v), nxt = Suc (nxt H)\<rparr>)"

definition modify :: "addr \<Rightarrow> (RuntimePatch \<Rightarrow> RuntimePatch) \<Rightarrow> Heap \<Rightarrow> Heap" where
  "modify a f H = H\<lparr>cells := (cells H)(a := f (cells H a))\<rparr>"

record Overlay =
  ov_a :: addr
  aEdge :: EdgeName
  ov_b :: addr
  bEdge :: EdgeName
  outcome :: "Outcome option"
  progress :: double

text \<open>
  \<^verbatim>\<open>patches: Map<PatchId, RuntimePatch>\<close> is an association list in insertion order with
  the operations of a JavaScript \<^verbatim>\<open>Map\<close>: \<^verbatim>\<open>get\<close> is \<^const>\<open>map_of\<close>, \<^verbatim>\<open>set\<close> is
  \<^const>\<open>AList.update\<close> (an existing key keeps its place, a new one goes last) and
  \<^verbatim>\<open>delete\<close> is \<^const>\<open>AList.delete\<close>.
\<close>

record RuntimeState =
  patches :: "(PatchId \<times> addr) list"
  measurementOverlay :: "Overlay option"

section \<open>The engine\<close>

text \<open>
  \<^verbatim>\<open>deepCopy(act.patch)\<close> where a \<^verbatim>\<open>RuntimePatch\<close> is expected: a new object with the
  fields of the patch and neither \<^verbatim>\<open>_animFrom\<close> nor \<^verbatim>\<open>_animTo\<close>.
\<close>

definition runtimePatch :: "Patch \<Rightarrow> RuntimePatch" where
  "runtimePatch p =
     \<lparr>patch_id = patch_id p, rect = rect p, edges = edges p, label = label p,
      animFrom = None, animTo = None\<rparr>"

text \<open>
  \<^verbatim>\<open>s.patches.forEach((p, k) => m.set(k, deepCopy(p)))\<close>: every patch of the map is copied
  into a new object.  The overlay is copied with a spread \<^verbatim>\<open>{ ...s.measurementOverlay }\<close>,
  which copies the references \<^verbatim>\<open>a\<close> and \<^verbatim>\<open>b\<close>, not the patches behind them.
\<close>

fun clonePatches :: "(PatchId \<times> addr) list \<Rightarrow> Heap \<times> (PatchId \<times> addr) list
    \<Rightarrow> Heap \<times> (PatchId \<times> addr) list" where
  "clonePatches [] (H, m) = (H, m)"
| "clonePatches ((k, a) # rest) (H, m) =
     (case alloc (cells H a) H of (a', H') \<Rightarrow> clonePatches rest (H', AList.update k a' m))"

definition cloneRuntimeState :: "Heap \<times> RuntimeState \<Rightarrow> Heap \<times> RuntimeState" where
  "cloneRuntimeState hs =
     (case hs of (H, s) \<Rightarrow>
        (case clonePatches (patches s) (H, []) of (H', m) \<Rightarrow>
           (H', \<lparr>patches = m,
                 measurementOverlay =
                   (case measurementOverlay s of None \<Rightarrow> None | Some ov \<Rightarrow> Some ov)\<rparr>)))"

text \<open>The body of the loop of \<^verbatim>\<open>commitActions\<close>: one action applied at the end of a tick.\<close>

fun commitAction :: "Action \<Rightarrow> Heap \<times> RuntimeState \<Rightarrow> Heap \<times> RuntimeState" where
  "commitAction (InitPatch p) (H, s) =
     (case alloc (runtimePatch p) H of (a, H') \<Rightarrow>
        (H', s\<lparr>patches := AList.update (patch_id p) a (patches s)\<rparr>))"
| "commitAction (DeformTo i to tc) (H, s) =
     (case map_of (patches s) i of
        None \<Rightarrow> (H, s)
      | Some a \<Rightarrow> (modify a (\<lambda>p. p\<lparr>rect := to, animFrom := None, animTo := None\<rparr>) H, s))"
| "commitAction (MoveTo i to tc) (H, s) =
     (case map_of (patches s) i of
        None \<Rightarrow> (H, s)
      | Some a \<Rightarrow>
          (modify a (\<lambda>p. p\<lparr>rect := (rect p)\<lparr>rect_x := point_x to, rect_y := point_y to\<rparr>,
                              animFrom := None, animTo := None\<rparr>) H, s))"
| "commitAction (RotateEdges i) (H, s) =
     (case map_of (patches s) i of
        None \<Rightarrow> (H, s)
      | Some a \<Rightarrow>
          (modify a (\<lambda>p. p\<lparr>edges := \<lparr>edge_top = edge_left (edges p), edge_right = edge_top (edges p),
                                        edge_bottom = edge_right (edges p),
                                        edge_left = edge_bottom (edges p)\<rparr>\<rparr>) H, s))"
| "commitAction (Discard i) (H, s) = (H, s\<lparr>patches := AList.delete i (patches s)\<rparr>)"
| "commitAction (SinglePatchMeas i basis oc) (H, s) = (H, s)"
| "commitAction (TwoPatchMeas lhs rhs oc) (H, s) = (H, s\<lparr>measurementOverlay := None\<rparr>)"

definition commitActions :: "Heap \<times> RuntimeState \<Rightarrow> Action list \<Rightarrow> Heap \<times> RuntimeState" where
  "commitActions hs acts = fold commitAction acts hs"

text \<open>The body of the loop of \<^verbatim>\<open>prepareTick\<close>; a kind without a case is skipped.\<close>

fun prepareAction :: "Action \<Rightarrow> Heap \<times> RuntimeState \<Rightarrow> Heap \<times> RuntimeState" where
  "prepareAction (DeformTo i to tc) (H, s) =
     (case map_of (patches s) i of
        None \<Rightarrow> (H, s)
      | Some a \<Rightarrow> (modify a (\<lambda>p. p\<lparr>animFrom := Some (rect p), animTo := Some to\<rparr>) H, s))"
| "prepareAction (MoveTo i to tc) (H, s) =
     (case map_of (patches s) i of
        None \<Rightarrow> (H, s)
      | Some a \<Rightarrow>
          (modify a (\<lambda>p. p\<lparr>animFrom := Some (rect p),
                              animTo := Some ((rect p)\<lparr>rect_x := point_x to, rect_y := point_y to\<rparr>)\<rparr>)
             H, s))"
| "prepareAction (TwoPatchMeas lhs rhs oc) (H, s) =
     (case (map_of (patches s) (side_id lhs), map_of (patches s) (side_id rhs)) of
        (Some a, Some b) \<Rightarrow>
          (H, s\<lparr>measurementOverlay :=
                   Some \<lparr>ov_a = a, aEdge = side_edge lhs, ov_b = b, bEdge = side_edge rhs,
                         outcome = oc, progress = 0\<rparr>\<rparr>)
      | _ \<Rightarrow> (H, s))"
| "prepareAction (SinglePatchMeas i basis oc) (H, s) = (H, s)"
| "prepareAction (InitPatch p) (H, s) = (H, s)"
| "prepareAction (RotateEdges i) (H, s) = (H, s)"
| "prepareAction (Discard i) (H, s) = (H, s)"

definition clearOverlay :: "Heap \<times> RuntimeState \<Rightarrow> Heap \<times> RuntimeState" where
  "clearOverlay hs = (case hs of (H, s) \<Rightarrow> (H, s\<lparr>measurementOverlay := None\<rparr>))"

definition prepareTick :: "Heap \<times> RuntimeState \<Rightarrow> Action list \<Rightarrow> Heap \<times> RuntimeState" where
  "prepareTick hs acts = fold prepareAction acts (clearOverlay hs)"

text \<open>
  The body of the loop of \<^verbatim>\<open>advanceInterpolations\<close>: a patch with both rectangles recorded
  gets the interpolated rectangle, any other patch is left as it is.
\<close>

definition advancePatch :: "double \<Rightarrow> RuntimePatch \<Rightarrow> RuntimePatch" where
  "advancePatch t01 p =
     (case (animFrom p, animTo p) of
        (Some f, Some t) \<Rightarrow> p\<lparr>rect := lerpRect f t t01\<rparr>
      | _ \<Rightarrow> p)"

definition advanceInterpolations :: "Heap \<times> RuntimeState \<Rightarrow> double \<Rightarrow> Heap \<times> RuntimeState" where
  "advanceInterpolations hs t01 =
     (case hs of (H, s) \<Rightarrow>
        (fold (\<lambda>a. modify a (advancePatch t01)) (map snd (patches s)) H,
         s\<lparr>measurementOverlay :=
             (case measurementOverlay s of
                None \<Rightarrow> None
              | Some ov \<Rightarrow> Some (ov\<lparr>progress := t01\<rparr>))\<rparr>))"

section \<open>The component: playback cursor, clock callback and step control\<close>

text \<open>
  The React state of \<^verbatim>\<open>LatticeSurgeryVisualizer\<close>: \<^verbatim>\<open>runtime\<close>, \<^verbatim>\<open>stepIdx\<close>, \<^verbatim>\<open>tInStep\<close> and
  \<^verbatim>\<open>playing\<close>.  Reading \<^verbatim>\<open>program.steps[i]\<close> outside the array gives \<^verbatim>\<open>undefined\<close>
  (\<open>None\<close>), and reading \<^verbatim>\<open>.actions\<close> of that throws a \<^verbatim>\<open>TypeError\<close>, at the place where
  the code reads it.
\<close>

datatype error = TypeError

record Player =
  runtime :: RuntimeState
  stepIdx :: int
  tInStep :: double
  playing :: bool

definition stepAt :: "Program \<Rightarrow> int \<Rightarrow> Step option" where
  "stepAt program i =
     (if 0 \<le> i \<and> i < int (length (steps program)) then Some (steps program ! nat i) else None)"

text \<open>
  The callback handed to \<^verbatim>\<open>useAnimationClock\<close>, for a parsed program and a canvas that
  exists; what it draws is the state it stores.  The quotient \<^verbatim>\<open>newT / program.tickMs\<close> is
  the rounded quotient, which is the JavaScript one for \<open>tickMs \<noteq> 0\<close> only: the theorems
  about the callback assume \<open>0 < tickMs\<close>, which is what the program format asks for.
\<close>

definition onTick :: "Program \<Rightarrow> double \<Rightarrow> Heap \<times> Player \<Rightarrow> error + Heap \<times> Player" where
  "onTick program dt hc =
     (case hc of (H, c) \<Rightarrow>
        (case cloneRuntimeState (H, runtime c) of (H1, newRuntime) \<Rightarrow>
           if playing c \<and> length (steps program) > 0 then
             (let step = stepAt program (stepIdx c) in
              case (if tInStep c = 0
                    then (case step of
                            None \<Rightarrow> Inl TypeError
                          | Some st \<Rightarrow>
                              Inr (prepareTick (cloneRuntimeState (H1, runtime c)) (actions st)))
                    else Inr (H1, newRuntime)) of
                Inl e \<Rightarrow> Inl e
              | Inr prepared \<Rightarrow>
                  (let newT = tInStep c + dt;
                       t01 = clamp01 (newT / tickMs program);
                       advanced = advanceInterpolations prepared t01
                   in if newT \<ge> tickMs program then
                        (case step of
                           None \<Rightarrow> Inl TypeError
                         | Some st \<Rightarrow>
                             (case commitActions advanced (actions st) of (H', rt) \<Rightarrow>
                                Inr (H', \<lparr>runtime = rt,
                                          stepIdx = min (int (length (steps program)) - 1) (stepIdx c + 1),
                                          tInStep = 0, playing = playing c\<rparr>)))
                      else
                        (case advanced of (H', rt) \<Rightarrow>
                           Inr (H', \<lparr>runtime = rt, stepIdx = stepIdx c, tInStep = newT,
                                     playing = playing c\<rparr>))))
           else Inr (H1, \<lparr>runtime = newRuntime, stepIdx = stepIdx c, tInStep = tInStep c,
                          playing = playing c\<rparr>)))"

definition stepOnce :: "Program \<Rightarrow> Heap \<times> Player \<Rightarrow> error + Heap \<times> Player" where
  "stepOnce program hc =
     (case hc of (H, c) \<Rightarrow>
        (let idx = min (stepIdx c) (int (length (steps program)) - 1) in
         case stepAt program idx of
           None \<Rightarrow> Inl TypeError
         | Some st \<Rightarrow>
             (case commitActions
                     (advanceInterpolations
                        (prepareTick (cloneRuntimeState (H, runtime c)) (actions st)) 1)
                     (actions st) of
                (H', rt) \<Rightarrow>
                  Inr (H', \<lparr>runtime = rt, stepIdx = min (idx + 1) (int (length (steps program)) - 1),
                            tInStep = 0, playing = playing c\<rparr>))))"

definition reset :: "Heap \<times> Player \<Rightarrow> Heap \<times> Player" where
  "reset hc =
     (case hc of (H, c) \<Rightarrow>
        (H, \<lparr>runtime = \<lparr>patches = [], measurementOverlay = None\<rparr>, stepIdx = 0, tInStep = 0,
              playing = False\<rparr>))"

section \<open>What can be observed of a state\<close>

text \<open>
  \<^verbatim>\<open>drawRuntime\<close> reads the patches of the map in order and, for the overlay, the two
  patch objects it refers to, its edges, outcome and progress.  Addresses themselves are
  not observable.
\<close>

type_synonym OverlayView =
  "RuntimePatch \<times> EdgeName \<times> RuntimePatch \<times> EdgeName \<times> Outcome option \<times> double"

definition overlayView :: "Heap \<Rightarrow> Overlay \<Rightarrow> OverlayView" where
  "overlayView H ov =
     (cells H (ov_a ov), aEdge ov, cells H (ov_b ov), bEdge ov, outcome ov, progress ov)"

definition snapshot :: "Heap \<times> RuntimeState \<Rightarrow> (PatchId \<times> RuntimePatch) list \<times> OverlayView option" where
  "snapshot hs =
     (case hs of (H, s) \<Rightarrow>
        (map (\<lambda>(k, a). (k, cells H a)) (patches s),
         map_option (overlayView H) (measurementOverlay s)))"

text \<open>
  What a run of the step control or of the clock callback leaves to see: the error, or the
  snapshot of the runtime state it stored and the cursor (step index and time in the step).
\<close>

definition observe :: "error + Heap \<times> Player
    \<Rightarrow> error + ((PatchId \<times> RuntimePatch) list \<times> OverlayView option) \<times> int \<times> double" where
  "observe r =
     (case r of
        Inl e \<Rightarrow> Inl e
      | Inr (H, c) \<Rightarrow> Inr (snapshot (H, runtime c), stepIdx c, tInStep c))"

text \<open>Every object the state refers to: the patches of its map and those of its overlay.\<close>

definition overlayObjects :: "RuntimeState \<Rightarrow> addr set" where
  "overlayObjects s = (case measurementOverlay s of None \<Rightarrow> {} | Some ov \<Rightarrow> {ov_a ov, ov_b ov})"

definition patchObjects :: "RuntimeState \<Rightarrow> addr set" where
  "patchObjects s = snd ` set (patches s) \<union> overlayObjects s"

text \<open>The patches of the map have been allocated: their addresses lie below \<open>nxt\<close>.\<close>

definition allocated :: "Heap \<Rightarrow> RuntimeState \<Rightarrow> bool" where
  "allocated H s = list_all (\<lambda>(k, a). a < nxt H) (patches s)"

section \<open>Notions of the specification\<close>

text \<open>
  The patch identifiers an action refers to, that is, looks up in the patch map.
  \<^verbatim>\<open>InitPatch\<close> refers to none: it carries the patch it creates.
\<close>

fun targetIds :: "Action \<Rightarrow> PatchId list" where
  "targetIds (InitPatch p) = []"
| "targetIds (DeformTo i to tc) = [i]"
| "targetIds (MoveTo i to tc) = [i]"
| "targetIds (TwoPatchMeas lhs rhs oc) = [side_id lhs, side_id rhs]"
| "targetIds (SinglePatchMeas i basis oc) = [i]"
| "targetIds (RotateEdges i) = [i]"
| "targetIds (Discard i) = [i]"

text \<open>A dangling reference: the action refers to an identifier that the map does not hold.\<close>

definition dangling :: "(PatchId \<times> addr) list \<Rightarrow> Action \<Rightarrow> bool" where
  "dangling m act = list_ex (\<lambda>i. map_of m i = None) (targetIds act)"

fun isTwoPatchMeas :: "Action \<Rightarrow> bool" where
  "isTwoPatchMeas (TwoPatchMeas lhs rhs oc) = True"
| "isTwoPatchMeas act = False"

text \<open>
  The overlay the specification describes for one \<^verbatim>\<open>TwoPatchMeas\<close> whose two patches exist,
  and the overlay of a batch: that of its last such action, none when it has none.
\<close>

fun overlayOf :: "(PatchId \<times> addr) list \<Rightarrow> Action \<Rightarrow> Overlay option" where
  "overlayOf m (TwoPatchMeas lhs rhs oc) =
     (case map_of m (side_id lhs) of
        None \<Rightarrow> None
      | Some a \<Rightarrow>
          (case map_of m (side_id rhs) of
             None \<Rightarrow> None
           | Some b \<Rightarrow>
               Some \<lparr>ov_a = a, aEdge = side_edge lhs, ov_b = b, bEdge = side_edge rhs,
                     outcome = oc, progress = 0\<rparr>))"
| "overlayOf m act = None"

definition lastMeasOverlay :: "(PatchId \<times> addr) list \<Rightarrow> Action list \<Rightarrow> Overlay option" where
  "lastMeasOverlay m acts =
     (case filter (\<lambda>act. overlayOf m act \<noteq> None) acts of
        [] \<Rightarrow> None
      | act # rest \<Rightarrow> overlayOf m (last (act # rest)))"

section \<open>The demonstration program of the source\<close>

definition demoEdges :: Edges where
  "demoEdges = \<lparr>edge_top = EdgeZ, edge_right = EdgeX, edge_bottom = EdgeZ, edge_left = EdgeX\<rparr>"

definition demoQ0 :: Patch where
  "demoQ0 = \<lparr>patch_id = ''q0'', rect = \<lparr>rect_x = dbl 6, rect_y = dbl 7, rect_w = dbl 3, rect_h = dbl 3\<rparr>,
             edges = demoEdges, label = Some ''q0''\<rparr>"

definition demoQ1 :: Patch where
  "demoQ1 = \<lparr>patch_id = ''q1'', rect = \<lparr>rect_x = dbl 16, rect_y = dbl 7, rect_w = dbl 3, rect_h = dbl 3\<rparr>,
             edges = demoEdges, label = Some ''q1''\<rparr>"

definition demoProgram :: Program where
  "demoProgram =
     \<lparr>tickMs = dbl 700, grid = \<lparr>cols = dbl 26, rows = dbl 16\<rparr>,
      steps =
        [\<lparr>actions = [InitPatch demoQ0, InitPatch demoQ1], step_label = Some ''init''\<rparr>,
         \<lparr>actions = [DeformTo ''q0'' \<lparr>rect_x = dbl 8, rect_y = dbl 7, rect_w = dbl 4, rect_h = dbl 3\<rparr> None,
                     DeformTo ''q1'' \<lparr>rect_x = dbl 14, rect_y = dbl 7, rect_w = dbl 4, rect_h = dbl 3\<rparr> None],
          step_label = Some ''approach''\<rparr>,
         \<lparr>actions = [TwoPatchMeas \<lparr>side_id = ''q0'', side_edge = FaceRight\<rparr>
                       \<lparr>side_id = ''q1'', side_edge = FaceLeft\<rparr> (Some OutcomePlus)],
          step_label = Some ''Z Z measurement''\<rparr>,
         \<lparr>actions = [DeformTo ''q0'' \<lparr>rect_x = dbl 6, rect_y = dbl 7, rect_w = dbl 3, rect_h = dbl 3\<rparr> None,
                     DeformTo ''q1'' \<lparr>rect_x = dbl 16, rect_y = dbl 7, rect_w = dbl 3, rect_h = dbl 3\<rparr> None],
          step_label = Some ''separate''\<rparr>,
         \<lparr>actions = [RotateEdges ''q0'', RotateEdges ''q1''], step_label = Some ''rotate edges''\<rparr>,
         \<lparr>actions = [TwoPatchMeas \<lparr>side_id = ''q0'', side_edge = FaceBottom\<rparr>
                       \<lparr>side_id = ''q1'', side_edge = FaceBottom\<rparr> (Some OutcomeMinus)],
          step_label = Some ''X X measurement''\<rparr>]\<rparr>"

text \<open>
  A store whose first two objects are the patches of the demonstration program, and the
  runtime state that holds them (the state after the step \<open>init\<close>).
\<close>

definition demoHeap :: Heap where
  "demoHeap = \<lparr>cells = (\<lambda>a. if a = 0 then runtimePatch demoQ0 else runtimePatch demoQ1), nxt = 2\<rparr>"

definition demoState :: RuntimeState where
  "demoState = \<lparr>patches = [(''q0'', 0), (''q1'', 1)], measurementOverlay = None\<rparr>"

text \<open>
  The demonstration state while the step \<open>Z Z measurement\<close> is in progress: the overlay
  refers to the objects of \<open>q0\<close> and \<open>q1\<close>.
\<close>

definition measuringState :: RuntimeState where
  "measuringState =
     demoState\<lparr>measurementOverlay :=
       Some \<lparr>ov_a = 0, aEdge = FaceRight, ov_b = 1, bEdge = FaceLeft,
             outcome = Some OutcomePlus, progress = 0\<rparr>\<rparr>"

section \<open>Running the demonstration program from the start\<close>

text \<open>
  The state of the component when a program has been loaded: an empty patch map, the
  cursor at step 0, paused.  No object has been allocated; what the store holds at an
  address that was never allocated does not matter (here a patch with empty fields).
\<close>

definition blankPatch :: RuntimePatch where
  "blankPatch =
     \<lparr>patch_id = [], rect = \<lparr>rect_x = 0, rect_y = 0, rect_w = 0, rect_h = 0\<rparr>,
      edges = \<lparr>edge_top = EdgeX, edge_right = EdgeX, edge_bottom = EdgeX, edge_left = EdgeX\<rparr>,
      label = None, animFrom = None, animTo = None\<rparr>"

definition initialHeap :: Heap where
  "initialHeap = \<lparr>cells = (\<lambda>a. blankPatch), nxt = 0\<rparr>"

definition initialPlayer :: Player where
  "initialPlayer =
     \<lparr>runtime = \<lparr>patches = [], measurementOverlay = None\<rparr>, stepIdx = 0, tInStep = 0,
      playing = False\<rparr>"

text \<open>Pressing the step control \<open>n\<close> times; an exception ends the run.\<close>

fun stepTimes :: "nat \<Rightarrow> Program \<Rightarrow> Heap \<times> Player \<Rightarrow> error + Heap \<times> Player" where
  "stepTimes 0 program hc = Inr hc"
| "stepTimes (Suc n) program hc =
     (case stepOnce program hc of Inl e \<Rightarrow> Inl e | Inr hc' \<Rightarrow> stepTimes n program hc')"

section \<open>Two runs that differ in the addresses they were given\<close>

text \<open>
  Two pairs of a store and a state stand in the relation \<open>shifted n d\<close> when they agree
  below the address \<open>n\<close>, every object the first state refers to lies at an address from
  \<open>n\<close> up to its store's \<open>nxt\<close>, and the second is the first with every such address moved
  up by \<open>d\<close>.  This is how the run of the step control and the run of the clock callback
  are related: the callback clones the state twice and drops the first clone.
\<close>

definition shiftOverlay :: "nat \<Rightarrow> Overlay \<Rightarrow> Overlay" where
  "shiftOverlay d ov = ov\<lparr>ov_a := ov_a ov + d, ov_b := ov_b ov + d\<rparr>"

definition inRange :: "addr \<Rightarrow> Heap \<Rightarrow> RuntimeState \<Rightarrow> bool" where
  "inRange n H s =
     (list_all (\<lambda>(k, a). n \<le> a \<and> a < nxt H) (patches s)
      \<and> (case measurementOverlay s of
            None \<Rightarrow> True
          | Some ov \<Rightarrow> n \<le> ov_a ov \<and> ov_a ov < nxt H \<and> n \<le> ov_b ov \<and> ov_b ov < nxt H))"

definition shifted :: "addr \<Rightarrow> nat \<Rightarrow> Heap \<times> RuntimeState \<Rightarrow> Heap \<times> RuntimeState \<Rightarrow> bool" where
  "shifted n d hs hs' =
     (case hs of (H, s) \<Rightarrow> case hs' of (H', s') \<Rightarrow>
        nxt H' = nxt H + d \<and> n \<le> nxt H \<and> inRange n H s
        \<and> patches s' = map (\<lambda>(k, a). (k, a + d)) (patches s)
        \<and> measurementOverlay s' = map_option (shiftOverlay d) (measurementOverlay s)
        \<and> (\<forall>a. a < n \<longrightarrow> cells H' a = cells H a)
        \<and> (\<forall>a. n \<le> a \<and> a < nxt H \<longrightarrow> cells H' (a + d) = cells H a))"

section \<open>A program whose last step rotates\<close>

definition rotateProgram :: Program where
  "rotateProgram =
     \<lparr>tickMs = dbl 700, grid = \<lparr>cols = dbl 26, rows = dbl 16\<rparr>,
      steps =
        [\<lparr>actions = [InitPatch demoQ0, InitPatch demoQ1], step_label = Some ''init''\<rparr>,
         \<lparr>actions = [RotateEdges ''q0''], step_label = Some ''rotate edges''\<rparr>]\<rparr>"

text \<open>The component after the first step of that program, paused or playing.\<close>

definition rotatePlayer :: "bool \<Rightarrow> Player" where
  "rotatePlayer pl = \<lparr>runtime = demoState, stepIdx = 1, tInStep = 0, playing = pl\<rparr>"

section \<open>The clock over several frames\<close>

text \<open>
  The clock callback run for a sequence of frames, each with the time elapsed since the
  frame before; an exception ends the run.
\<close>

fun runFrames :: "Program \<Rightarrow> double list \<Rightarrow> Heap \<times> Player \<Rightarrow> error + Heap \<times> Player" where
  "runFrames program [] hc = Inr hc"
| "runFrames program (dt # dts) hc =
     (case onTick program dt hc of Inl e \<Rightarrow> Inl e | Inr hc' \<Rightarrow> runFrames program dts hc')"

text \<open>
  The frames of one tick that starts at time \<open>acc\<close> in the step: the time in the step, as
  the clock callback adds it up frame by frame (\<^verbatim>\<open>newT += dt\<close>), stays below \<open>T\<close> before
  the last frame and reaches \<open>T\<close> with the last one.
\<close>

fun oneTick :: "double \<Rightarrow> double \<Rightarrow> double list \<Rightarrow> bool" where
  "oneTick T acc [] = False"
| "oneTick T acc [d] = (T \<le> acc + d)"
| "oneTick T acc (d # e # ds) = (acc + d < T \<and> oneTick T (acc + d) (e # ds))"

text \<open>
  For the proof that a tick spread over several frames ends like the step control.  The
  reference run is that of the step control: \<open>P\<close> is the state it has prepared on its
  clone, whose patch map holds the keys \<open>ks\<close> at the consecutive addresses from \<open>n\<close> on.
  In the middle of the tick, at time \<open>acc\<close> in the step, the clock has stored a state
  whose patch map is that of \<open>P\<close> advanced to some progress, at other addresses; its
  overlay may refer to objects of an earlier frame, and is there only if the batch has a
  \<open>TwoPatchMeas\<close>.
\<close>

definition refShape :: "addr \<Rightarrow> PatchId list \<Rightarrow> Heap \<times> RuntimeState \<Rightarrow> bool" where
  "refShape n ks P =
     (patches (snd P) = zip ks [n ..< n + length ks] \<and> distinct ks
      \<and> nxt (fst P) = n + length ks)"

definition midTick :: "int \<Rightarrow> Action list \<Rightarrow> addr \<Rightarrow> Heap \<times> RuntimeState \<Rightarrow> double
    \<Rightarrow> Heap \<times> Player \<Rightarrow> bool" where
  "midTick i acts n P acc hc =
     (case hc of (H, c) \<Rightarrow>
        playing c \<and> stepIdx c = i \<and> tInStep c = acc
        \<and> (\<exists>d t. shifted n d (clearOverlay (advanceInterpolations P t)) (clearOverlay (H, runtime c)))
        \<and> (measurementOverlay (runtime c) \<noteq> None \<longrightarrow> list_ex isTwoPatchMeas acts))"

section \<open>Powers of two\<close>

lemma p2_pos [simp]: "0 < p2 k"
  by (simp add: p2_def)

lemma p2_neq0 [simp]: "p2 k \<noteq> 0"
  by (simp add: p2_def)

lemma p2_nonneg [simp]: "0 \<le> p2 k"
  by (simp add: p2_def)

lemma p2_not_le0 [simp]: "\<not> p2 k \<le> 0"
  by (simp add: p2_def not_le)

lemma p2_add: "p2 (a + b) = p2 a * p2 b"
  by (simp add: p2_def powr_add)

lemma p2_0 [simp]: "p2 0 = 1"
  by (simp add: p2_def)

lemma p2_le [simp]: "(p2 a \<le> p2 b) = (a \<le> b)"
  by (simp add: p2_def)

lemma p2_less [simp]: "(p2 a < p2 b) = (a < b)"
  by (simp add: p2_def)

lemma p2_nat: "p2 (int n) = 2 ^ n"
  by (simp add: p2_def powr_realpow)

lemma p2_neg_nat: "p2 (- int n) = 1 / 2 ^ n"
  by (simp add: p2_def powr_minus powr_realpow divide_inverse)

lemma p2_diff: "p2 (a - b) = p2 a / p2 b"
  by (simp add: p2_def powr_diff)

lemma p2_int: "0 \<le> k \<Longrightarrow> p2 k = of_int (2 ^ nat k)"
  using p2_nat [of "nat k"] by simp

section \<open>Rounding to an integer\<close>

lemma rhe_bounds: "\<bar>of_int (roundHalfEven x) - x\<bar> \<le> 1 / 2"
  unfolding roundHalfEven_def Let_def by (auto simp: abs_le_iff)

lemma rhe_of_int [simp]: "roundHalfEven (of_int k) = k"
  by (simp add: roundHalfEven_def)

lemma rhe_near: "\<bar>x - of_int m\<bar> < 1 / 2 \<Longrightarrow> roundHalfEven x = m"
  using rhe_bounds [of x] by linarith

lemma rhe_floor: "\<lfloor>x\<rfloor> \<le> roundHalfEven x \<and> roundHalfEven x \<le> \<lfloor>x\<rfloor> + 1"
  by (simp add: roundHalfEven_def Let_def)

lemma rhe_mono: 
  assumes "x \<le> y"
  shows "roundHalfEven x \<le> roundHalfEven y"
proof (cases "\<lfloor>x\<rfloor> = \<lfloor>y\<rfloor>")
  case True
  then show ?thesis
    using assms by (auto simp: roundHalfEven_def Let_def)
next
  case False
  then have "\<lfloor>x\<rfloor> + 1 \<le> \<lfloor>y\<rfloor>"
    using floor_mono [OF assms] by simp
  then show ?thesis
    using rhe_floor [of x] rhe_floor [of y] by linarith
qed

lemma rhe_minus: "roundHalfEven (- x) = - roundHalfEven x"
proof (cases "x = of_int \<lfloor>x\<rfloor>")
  case True
  then obtain k where "x = of_int k" ..
  then show ?thesis
    by (simp flip: of_int_minus)
next
  case False
  then have lt: "of_int \<lfloor>x\<rfloor> < x"
    using of_int_floor_le [of x] False by linarith
  have up: "x < of_int \<lfloor>x\<rfloor> + 1"
    by linarith
  have "\<lfloor>- x\<rfloor> = - \<lfloor>x\<rfloor> - 1"
  proof (rule floor_unique)
    show "of_int (- \<lfloor>x\<rfloor> - 1) \<le> - x"
      unfolding of_int_diff of_int_minus of_int_1 using up by linarith
    show "- x < of_int (- \<lfloor>x\<rfloor> - 1) + 1"
      unfolding of_int_diff of_int_minus of_int_1 using lt by linarith
  qed
  then show ?thesis
    using lt by (auto simp: roundHalfEven_def Let_def)
qed

section \<open>The exponent of a real\<close>

lemma expo_minus [simp]: "expo (- x) = expo x"
  by (simp add: expo_def)

lemma ulp_minus [simp]: "ulp (- x) = ulp x"
  by (simp add: ulp_def)

lemma ulp_pos [simp]: "0 < ulp x"
  by (simp add: ulp_def)

lemma ulp_neq0 [simp]: "ulp x \<noteq> 0"
  by (simp add: ulp_def)

lemma ulp_nonneg [simp]: "0 \<le> ulp x"
  by (simp add: ulp_def less_imp_le)

lemma floor_log2:
  assumes "x \<noteq> 0"
  shows "p2 \<lfloor>log 2 \<bar>x\<bar>\<rfloor> \<le> \<bar>x\<bar> \<and> \<bar>x\<bar> < p2 (\<lfloor>log 2 \<bar>x\<bar>\<rfloor> + 1)"
proof -
  have "0 < \<bar>x\<bar>" using assms by simp
  from floor_log_eq_powr_iff [OF this, of 2 "\<lfloor>log 2 \<bar>x\<bar>\<rfloor>"]
  show ?thesis by (simp add: p2_def)
qed

lemma expo_ge: "- 1022 \<le> expo x"
  by (simp add: expo_def)

lemma expo_upper: "x \<noteq> 0 \<Longrightarrow> \<bar>x\<bar> < p2 (expo x + 1)"
proof -
  assume "x \<noteq> 0"
  then have "\<bar>x\<bar> < p2 (\<lfloor>log 2 \<bar>x\<bar>\<rfloor> + 1)"
    using floor_log2 by blast
  also have "\<dots> \<le> p2 (expo x + 1)"
    by (simp add: expo_def)
  finally show ?thesis .
qed

lemma expo_lower: "x \<noteq> 0 \<Longrightarrow> - 1022 < expo x \<Longrightarrow> p2 (expo x) \<le> \<bar>x\<bar>"
  using floor_log2 [of x] by (auto simp: expo_def max_def split: if_splits)

lemma expo_eqI:
  assumes "p2 e \<le> \<bar>x\<bar>" and "\<bar>x\<bar> < p2 (e + 1)" and "- 1022 \<le> e"
  shows "expo x = e"
proof -
  have pos: "0 < \<bar>x\<bar>"
    using assms(1) p2_pos [of e] by linarith
  have "\<lfloor>log 2 \<bar>x\<bar>\<rfloor> = e"
    using floor_log_eq_powr_iff [OF pos, of 2 e] assms by (simp add: p2_def)
  then show ?thesis
    using assms(3) by (simp add: expo_def)
qed

lemma expo_small:
  assumes "x \<noteq> 0" and "\<bar>x\<bar> < p2 (- 1022)"
  shows "expo x = - 1022"
proof -
  have "p2 \<lfloor>log 2 \<bar>x\<bar>\<rfloor> < p2 (- 1022)"
    using floor_log2 [OF assms(1)] assms(2) by linarith
  then show ?thesis
    by (simp add: expo_def)
qed

lemma expo_mono:
  assumes "x \<noteq> 0" and "\<bar>x\<bar> \<le> \<bar>y\<bar>"
  shows "expo x \<le> expo y"
proof -
  have "0 < \<bar>x\<bar>" using assms(1) by simp
  then have "log 2 \<bar>x\<bar> \<le> log 2 \<bar>y\<bar>"
    using assms(2) by simp
  then have "\<lfloor>log 2 \<bar>x\<bar>\<rfloor> \<le> \<lfloor>log 2 \<bar>y\<bar>\<rfloor>"
    by (rule floor_mono)
  then show ?thesis
    by (simp add: expo_def)
qed

section \<open>Rounding to a double\<close>

lemma rnd_0 [simp]: "rnd 0 = 0"
  by (simp add: rnd_def)

lemma rnd_minus: "rnd (- x) = - rnd x"
  by (simp add: rnd_def rhe_minus)

lemma p2_53: "p2 (e + 1) = of_int (2 ^ 53) * p2 (e - 52)"
proof -
  have "e + 1 = 53 + (e - 52)"
    by arith
  then have "p2 (e + 1) = p2 (53 + (e - 52))"
    by (rule arg_cong)
  also have "\<dots> = p2 53 * p2 (e - 52)"
    by (rule p2_add)
  finally have "p2 (e + 1) = p2 53 * p2 (e - 52)" .
  then show ?thesis
    using p2_int [of 53] by simp
qed

lemma p2_52: "p2 e = of_int (2 ^ 52) * p2 (e - 52)"
proof -
  have "e = 52 + (e - 52)"
    by arith
  then have "p2 e = p2 (52 + (e - 52))"
    by (rule arg_cong)
  also have "\<dots> = p2 52 * p2 (e - 52)"
    by (rule p2_add)
  finally have "p2 e = p2 52 * p2 (e - 52)" .
  then show ?thesis
    using p2_int [of 52] by simp
qed

lemma rnd_upper:
  assumes "0 < x"
  shows "rnd x \<le> p2 (expo x + 1)"
proof -
  have "x < of_int (2 ^ 53) * ulp x"
    using expo_upper [of x] assms by (simp add: p2_53 ulp_def)
  then have "x / ulp x \<le> of_int (2 ^ 53)"
    by (simp add: pos_divide_le_eq)
  then have "roundHalfEven (x / ulp x) \<le> 2 ^ 53"
    using rhe_mono [of "x / ulp x" "of_int (2 ^ 53)"] by (simp only: rhe_of_int)
  then have "of_int (roundHalfEven (x / ulp x)) \<le> (of_int (2 ^ 53) :: real)"
    by (simp only: of_int_le_iff)
  then have "of_int (roundHalfEven (x / ulp x)) * ulp x \<le> of_int (2 ^ 53) * ulp x"
    by (intro mult_right_mono) simp_all
  then show ?thesis
    using assms by (simp add: rnd_def p2_53 [of "expo x"] ulp_def)
qed

lemma rnd_lower:
  assumes "0 < x" and "- 1022 < expo x"
  shows "p2 (expo x) \<le> rnd x"
proof -
  have "of_int (2 ^ 52) * ulp x \<le> x"
    using expo_lower [of x] assms by (simp add: p2_52 [of "expo x"] ulp_def)
  then have "of_int (2 ^ 52) \<le> x / ulp x"
    by (simp add: pos_le_divide_eq)
  then have "2 ^ 52 \<le> roundHalfEven (x / ulp x)"
    using rhe_mono [of "of_int (2 ^ 52)" "x / ulp x"] by (simp only: rhe_of_int)
  then have "(of_int (2 ^ 52) :: real) \<le> of_int (roundHalfEven (x / ulp x))"
    by (simp only: of_int_le_iff)
  then have "of_int (2 ^ 52) * ulp x \<le> of_int (roundHalfEven (x / ulp x)) * ulp x"
    by (intro mult_right_mono) simp_all
  then show ?thesis
    using assms by (simp add: rnd_def p2_52 [of "expo x"] ulp_def)
qed

lemma rnd_nonneg:
  assumes "0 \<le> x"
  shows "0 \<le> rnd x"
proof (cases "x = 0")
  case False
  have "0 \<le> x / ulp x" using assms by simp
  then have "0 \<le> roundHalfEven (x / ulp x)"
    using rhe_mono [of "of_int 0" "x / ulp x"] by (simp only: rhe_of_int)
  then show ?thesis
    using False by (simp add: rnd_def)
qed simp

lemma rnd_mono_pos:
  assumes "0 < x" and "x \<le> y"
  shows "rnd x \<le> rnd y"
proof (cases "expo x = expo y")
  case True
  then have u: "ulp x = ulp y" by (simp add: ulp_def)
  have "x / ulp y \<le> y / ulp y"
    using assms(2) by (simp add: divide_right_mono)
  then have "roundHalfEven (x / ulp y) \<le> roundHalfEven (y / ulp y)"
    by (rule rhe_mono)
  then have "of_int (roundHalfEven (x / ulp y)) * ulp y \<le> of_int (roundHalfEven (y / ulp y)) * ulp y"
    by (intro mult_right_mono) simp_all
  then show ?thesis
    using assms by (simp add: rnd_def u)
next
  case False
  have "expo x \<le> expo y"
    using assms by (intro expo_mono) simp_all
  then have lt: "expo x + 1 \<le> expo y"
    using False by simp
  have "rnd x \<le> p2 (expo x + 1)"
    using assms(1) by (rule rnd_upper)
  also have "\<dots> \<le> p2 (expo y)"
    using lt by simp
  also have "\<dots> \<le> rnd y"
    using assms lt expo_ge [of x] by (intro rnd_lower) simp_all
  finally show ?thesis .
qed

lemma rnd_mono:
  assumes "x \<le> y"
  shows "rnd x \<le> rnd y"
proof -
  consider "0 < x" | "x \<le> 0" "0 \<le> y" | "y < 0"
    using assms by linarith
  then show ?thesis
  proof cases
    case 1
    then show ?thesis using assms by (rule rnd_mono_pos)
  next
    case 2
    have "rnd x \<le> 0"
      using rnd_nonneg [of "- x"] 2(1) by (simp add: rnd_minus)
    moreover have "0 \<le> rnd y"
      using 2(2) by (rule rnd_nonneg)
    ultimately show ?thesis by simp
  next
    case 3
    have "rnd (- y) \<le> rnd (- x)"
      using 3 assms by (intro rnd_mono_pos) simp_all
    then show ?thesis
      by (simp add: rnd_minus)
  qed
qed

section \<open>Representable numbers\<close>

lemma rnd_exact:
  assumes m: "\<bar>m\<bar> < 2 ^ 53" and i: "- 1074 \<le> i"
  shows "rnd (of_int m * p2 i) = of_int m * p2 i"
proof (cases "m = 0")
  case False
  define x where "x = of_int m * p2 i"
  have x0: "x \<noteq> 0"
    using False by (simp add: x_def)
  have ax: "\<bar>x\<bar> = of_int \<bar>m\<bar> * p2 i"
    by (simp add: x_def abs_mult)
  have le: "expo x - 52 \<le> i"
  proof (cases "expo x = - 1022")
    case True
    then show ?thesis using i by simp
  next
    case False
    then have "- 1022 < expo x"
      using expo_ge [of x] by simp
    then have "p2 (expo x) \<le> \<bar>x\<bar>"
      using x0 by (intro expo_lower) simp_all
    also have "\<dots> < of_int (2 ^ 53) * p2 i"
      unfolding ax using m by (intro mult_strict_right_mono) simp_all
    also have "\<dots> = p2 (i + 53)"
      using p2_53 [of "i + 52"] by (simp add: add.commute)
    finally have "expo x < i + 53"
      by simp
    then show ?thesis by simp
  qed
  define j where "j = nat (i - (expo x - 52))"
  have "i = int j + (expo x - 52)"
    using le by (simp add: j_def)
  then have "p2 i = p2 (int j + (expo x - 52))"
    by (rule arg_cong)
  also have "\<dots> = of_int (2 ^ j) * ulp x"
    by (simp add: p2_add p2_nat ulp_def)
  finally have pi: "p2 i = of_int (2 ^ j) * ulp x" .
  have "x = of_int m * p2 i"
    by (rule x_def)
  also have "\<dots> = of_int m * (of_int (2 ^ j) * ulp x)"
    by (simp only: pi)
  finally have xe: "x = of_int (m * 2 ^ j) * ulp x"
    by simp
  have "x / ulp x = of_int (m * 2 ^ j) * ulp x / ulp x"
    using xe by (rule arg_cong)
  then have "x / ulp x = of_int (m * 2 ^ j)"
    by simp
  then have "roundHalfEven (x / ulp x) = m * 2 ^ j"
    by (simp only: rhe_of_int)
  then have "rnd x = of_int (m * 2 ^ j) * ulp x"
    using x0 by (simp add: rnd_def)
  then have "rnd x = x"
    using xe by simp
  then show ?thesis
    by (simp only: x_def)
qed simp

lemma rnd_p2: "- 1074 \<le> i \<Longrightarrow> rnd (p2 i) = p2 i"
  using rnd_exact [of 1 i] by simp

lemma rnd_idem_pos:
  assumes "0 < x"
  shows "rnd (rnd x) = rnd x"
proof -
  define m where "m = roundHalfEven (x / ulp x)"
  have r: "rnd x = of_int m * p2 (expo x - 52)"
    using assms by (simp add: rnd_def m_def ulp_def)
  have i: "- 1074 \<le> expo x - 52"
    using expo_ge [of x] by simp
  have m0: "0 \<le> m"
    using rnd_nonneg [of x] assms unfolding r by (simp add: zero_le_mult_iff)
  have "of_int m * p2 (expo x - 52) \<le> of_int (2 ^ 53) * p2 (expo x - 52)"
    using rnd_upper [OF assms] unfolding r p2_53 [of "expo x"] .
  then have "(of_int m :: real) \<le> of_int (2 ^ 53)"
    by (simp only: mult_le_cancel_right_pos p2_pos)
  then have m53: "m \<le> 2 ^ 53"
    by (simp only: of_int_le_iff)
  show ?thesis
  proof (cases "m = 2 ^ 53")
    case True
    then have "rnd x = p2 (expo x + 1)"
      unfolding r p2_53 [of "expo x"] by simp
    moreover have "rnd (p2 (expo x + 1)) = p2 (expo x + 1)"
      using expo_ge [of x] by (intro rnd_p2) simp
    ultimately show ?thesis by simp
  next
    case False
    then have "\<bar>m\<bar> < 2 ^ 53"
      using m0 m53 by simp
    then show ?thesis
      unfolding r using i by (rule rnd_exact)
  qed
qed

lemma rnd_idem [simp]: "rnd (rnd x) = rnd x"
proof -
  consider "0 < x" | "x = 0" | "0 < - x" by linarith
  then show ?thesis
  proof cases
    case 3
    then have "rnd (rnd (- x)) = rnd (- x)"
      by (rule rnd_idem_pos)
    then show ?thesis by (simp add: rnd_minus)
  qed (simp_all add: rnd_idem_pos)
qed

lemma rnd_int: "\<bar>m\<bar> < 2 ^ 53 \<Longrightarrow> rnd (of_int m) = of_int m"
  using rnd_exact [of m 0] by simp

lemma rnd_1 [simp]: "rnd 1 = 1"
  using rnd_int [of 1] by simp

lemma rnd_numeral [simp]:
  "(numeral k :: int) < 2 ^ 53 \<Longrightarrow> rnd (numeral k) = numeral k"
  using rnd_int [of "numeral k"] by simp

lemma rnd_dyadic:
  assumes "\<bar>m\<bar> < 2 ^ 53" and "n \<le> 1074"
  shows "rnd (of_int m / 2 ^ n) = of_int m / 2 ^ n"
  using rnd_exact [of m "- int n"] assms by (simp add: p2_neg_nat)

lemma rnd_eqI:
  assumes "p2 e \<le> \<bar>x\<bar>" and "\<bar>x\<bar> < p2 (e + 1)" and "- 1022 \<le> e"
    and "\<bar>x / p2 (e - 52) - of_int m\<bar> < 1 / 2"
  shows "rnd x = of_int m * p2 (e - 52)"
proof -
  have e: "expo x = e"
    using assms(1-3) by (rule expo_eqI)
  have "x \<noteq> 0"
    using assms(1) p2_pos [of e] by auto
  then show ?thesis
    using rhe_near [OF assms(4)] by (simp add: rnd_def ulp_def e)
qed

lemma rnd_eqI_neg:
  assumes "1 / 2 ^ n \<le> \<bar>x\<bar>" and "\<bar>x\<bar> < 2 / 2 ^ n" and "n \<le> 1022"
    and "\<bar>x * 2 ^ (n + 52) - of_int m\<bar> < 1 / 2"
  shows "rnd x = of_int m / 2 ^ (n + 52)"
proof -
  have a: "p2 (- int n) = 1 / 2 ^ n"
    by (rule p2_neg_nat)
  have "p2 (- int n + 1) = p2 (- int n) * p2 1"
    by (rule p2_add)
  then have b: "p2 (- int n + 1) = 2 / 2 ^ n"
    using p2_nat [of 1] by (simp add: a)
  have "- int n - 52 = - int (n + 52)"
    by simp
  then have c: "p2 (- int n - 52) = 1 / 2 ^ (n + 52)"
    using p2_neg_nat [of "n + 52"] by simp
  have 1: "p2 (- int n) \<le> \<bar>x\<bar>"
    using assms(1) by (simp only: a)
  have 2: "\<bar>x\<bar> < p2 (- int n + 1)"
    using assms(2) by (simp only: b)
  have 3: "- 1022 \<le> - int n"
    using assms(3) by simp
  have 4: "\<bar>x / p2 (- int n - 52) - of_int m\<bar> < 1 / 2"
    using assms(4) by (simp add: c)
  have "rnd x = of_int m * p2 (- int n - 52)"
    using 1 2 3 4 by (rule rnd_eqI)
  then show ?thesis
    by (simp add: c)
qed

section \<open>Arithmetic of doubles\<close>

lemma rnd_val [simp]: "rnd (val a) = val a"
  using Rep_double [of a] by (simp add: val_def)

lemma val_dbl [simp]: "val (dbl x) = rnd x"
  by (simp add: val_def dbl_def Abs_double_inverse)

lemma dbl_val [simp]: "dbl (val a) = a"
  using rnd_val [of a] by (simp add: val_def dbl_def Rep_double_inverse)

lemma double_eq_iff: "(a = b) = (val a = val b)"
  by (simp add: val_def Rep_double_inject)

lemma le_double_iff: "(a \<le> b) = (val a \<le> val b)"
  by (simp add: less_eq_double_def)

lemma less_double_iff: "(a < b) = (val a < val b)"
  by (simp add: less_double_def)

lemma val_0 [simp]: "val 0 = 0"
  by (simp add: zero_double_def)

lemma val_1 [simp]: "val 1 = 1"
  by (simp add: one_double_def)

lemma dbl_0 [simp]: "dbl 0 = 0"
  by (simp add: zero_double_def)

lemma dbl_1 [simp]: "dbl 1 = 1"
  by (simp add: one_double_def)

lemma val_plus: "val (a + b) = rnd (val a + val b)"
  by (simp add: plus_double_def)

lemma val_minus: "val (a - b) = rnd (val a - val b)"
  by (simp add: minus_double_def)

lemma val_times: "val (a * b) = rnd (val a * val b)"
  by (simp add: times_double_def)

lemma val_divide: "val (a / b) = rnd (val a / val b)"
  by (simp add: divide_double_def)

lemma val_min: "val (min a b) = min (val a) (val b)"
  by (simp add: min_def le_double_iff)

lemma val_max: "val (max a b) = max (val a) (val b)"
  by (simp add: max_def le_double_iff)

lemmas double_arith =
  double_eq_iff le_double_iff less_double_iff val_plus val_minus val_times val_divide
  val_min val_max

lemma zero_less_one_double [simp]: "(0 :: double) < 1"
  by (simp add: less_double_iff)

lemma zero_le_one_double [simp]: "(0 :: double) \<le> 1"
  by (simp add: le_double_iff)

lemma add_zero_double [simp]: "a + 0 = (a :: double)" "0 + a = a"
  by (simp_all add: double_eq_iff val_plus)

lemma diff_self_double [simp]: "a - a = (0 :: double)"
  by (simp add: double_eq_iff val_minus)

lemma mult_zero_double [simp]: "a * 0 = (0 :: double)" "0 * a = 0"
  by (simp_all add: double_eq_iff val_times)

lemma mult_one_double [simp]: "a * 1 = (a :: double)" "1 * a = a"
  by (simp_all add: double_eq_iff val_times)

lemma div_self_double: "a \<noteq> 0 \<Longrightarrow> a / a = (1 :: double)"
  by (simp add: double_eq_iff val_divide)

lemma one_le_div_double:
  assumes "0 < t" and "t \<le> a"
  shows "(1 :: double) \<le> a / t"
proof -
  have "1 \<le> val a / val t"
    using assms by (simp add: le_double_iff less_double_iff le_divide_eq)
  then have "rnd 1 \<le> rnd (val a / val t)"
    by (rule rnd_mono)
  then show ?thesis
    by (simp add: le_double_iff val_divide)
qed

lemma add_mono_double: "b \<le> c \<Longrightarrow> a + b \<le> a + (c :: double)"
  by (simp add: le_double_iff val_plus rnd_mono)

lemma le_add_double: "0 \<le> b \<Longrightarrow> a \<le> a + (b :: double)"
  using add_mono_double [of 0 b a] by simp

lemma add_le_double: "b \<le> 0 \<Longrightarrow> a + b \<le> (a :: double)"
  using add_mono_double [of b 0 a] by simp

lemma diff_nonneg_double: "a \<le> b \<Longrightarrow> 0 \<le> b - (a :: double)"
  using rnd_mono [of 0 "val b - val a"] by (simp add: le_double_iff val_minus)

lemma diff_nonpos_double: "b \<le> a \<Longrightarrow> b - a \<le> (0 :: double)"
  using rnd_mono [of "val b - val a" 0] by (simp add: le_double_iff val_minus)

lemma mult_left_mono_double: "0 \<le> d \<Longrightarrow> s \<le> t \<Longrightarrow> d * s \<le> d * (t :: double)"
  by (simp add: le_double_iff val_times rnd_mono mult_left_mono)

lemma mult_left_mono_neg_double: "d \<le> 0 \<Longrightarrow> s \<le> t \<Longrightarrow> d * t \<le> d * (s :: double)"
  by (simp add: le_double_iff val_times rnd_mono mult_left_mono_neg)

lemma pos_add_double:
  assumes "0 < a" and "0 < d"
  shows "0 < a + (d :: double)"
proof -
  have "a \<le> a + d"
    using assms(2) by (intro le_add_double) simp
  then show ?thesis
    using assms(1) by simp
qed

section \<open>Evaluation of literals\<close>

lemma rnd_half [simp]: "rnd (1 / 2) = 1 / 2"
  using rnd_dyadic [of 1 1] by simp

lemma rnd_quarter [simp]: "rnd (1 / 4) = 1 / 4"
  using rnd_dyadic [of 1 2] by simp

lemma rnd_eighth [simp]: "rnd (1 / 8) = 1 / 8"
  using rnd_dyadic [of 1 3] by simp

lemma rnd_numeral_half [simp]:
  "(numeral k :: int) < 2 ^ 53 \<Longrightarrow> rnd (numeral k / 2) = numeral k / 2"
  using rnd_dyadic [of "numeral k" 1] by simp

lemma rnd_numeral_quarter [simp]:
  "(numeral k :: int) < 2 ^ 53 \<Longrightarrow> rnd (numeral k / 4) = numeral k / 4"
  using rnd_dyadic [of "numeral k" 2] by simp

lemma rnd_numeral_eighth [simp]:
  "(numeral k :: int) < 2 ^ 53 \<Longrightarrow> rnd (numeral k / 8) = numeral k / 8"
  using rnd_dyadic [of "numeral k" 3] by simp

lemma rnd_le_1 [simp]: "x \<le> 1 \<Longrightarrow> rnd x \<le> 1"
  using rnd_mono [of x 1] by simp

lemma rnd_ge_0 [simp]: "0 \<le> x \<Longrightarrow> 0 \<le> rnd x"
  by (rule rnd_nonneg)

section \<open>Basic facts about the store and the loops\<close>

lemmas engine_defs =
  stepOnce_def stepAt_def cloneRuntimeState_def alloc_def prepareTick_def clearOverlay_def
  advanceInterpolations_def modify_def advancePatch_def lerpRect_def lerp_def commitActions_def

lemma cells_modify: "cells (modify a f H) b = (if b = a then f (cells H a) else cells H b)"
  by (simp add: modify_def)

lemma nxt_modify: "nxt (modify a f H) = nxt H"
  by (simp add: modify_def)

lemma advancePatch_idem: "advancePatch t (advancePatch t p) = advancePatch t p"
  by (simp add: advancePatch_def split: option.splits)

lemma cells_advance_fold:
  "cells (fold (\<lambda>a. modify a (advancePatch t)) as H) b =
     (if b \<in> set as then advancePatch t (cells H b) else cells H b)"
proof (induction as arbitrary: H)
  case Nil
  show ?case by simp
next
  case (Cons a as)
  show ?case
    by (simp add: Cons.IH cells_modify advancePatch_idem)
qed

lemma nxt_advance_fold: "nxt (fold (\<lambda>a. modify a (advancePatch t)) as H) = nxt H"
  by (induction as arbitrary: H) (simp_all add: nxt_modify)

lemma snd_advance:
  "snd (advanceInterpolations (H, s) t) =
     s\<lparr>measurementOverlay := map_option (\<lambda>ov. ov\<lparr>progress := t\<rparr>) (measurementOverlay s)\<rparr>"
  by (simp add: advanceInterpolations_def split: option.splits)

lemma cells_advance:
  "cells (fst (advanceInterpolations (H, s) t)) b =
     (if b \<in> snd ` set (patches s) then advancePatch t (cells H b) else cells H b)"
  by (simp add: advanceInterpolations_def cells_advance_fold)

section \<open>Interpolation\<close>

lemma lerp_0: "lerp a b 0 = a"
  by (simp add: lerp_def)

lemma lerp_mono:
  assumes "s \<le> t"
  shows "(a \<le> b \<longrightarrow> lerp a b s \<le> lerp a b t) \<and> (b \<le> a \<longrightarrow> lerp a b t \<le> lerp a b s)"
proof (intro conjI impI)
  assume "a \<le> b"
  then have "0 \<le> b - a"
    by (rule diff_nonneg_double)
  then have "(b - a) * s \<le> (b - a) * t"
    using assms by (rule mult_left_mono_double)
  then show "lerp a b s \<le> lerp a b t"
    unfolding lerp_def by (rule add_mono_double)
next
  assume "b \<le> a"
  then have "b - a \<le> 0"
    by (rule diff_nonpos_double)
  then have "(b - a) * t \<le> (b - a) * s"
    using assms by (rule mult_left_mono_neg_double)
  then show "lerp a b t \<le> lerp a b s"
    unfolding lerp_def by (rule add_mono_double)
qed

lemma lerp_from:
  assumes "0 \<le> t"
  shows "(a \<le> b \<longrightarrow> a \<le> lerp a b t) \<and> (b \<le> a \<longrightarrow> lerp a b t \<le> a)"
  using lerp_mono [OF assms, of a b] by (simp add: lerp_0)

lemma lerp_1_exact:
  assumes "val (b - a) = val b - val a"
  shows "lerp a b 1 = b"
  by (simp add: lerp_def double_eq_iff val_plus assms)

lemma diff_exact_int:
  assumes "val a = of_int m" and "val b = of_int n" and "\<bar>m\<bar> < 2 ^ 52" and "\<bar>n\<bar> < 2 ^ 52"
  shows "val (b - a) = val b - val a"
proof -
  have "\<bar>n - m\<bar> < 2 ^ 53"
    using assms(3,4) by simp
  then have "rnd (of_int (n - m)) = of_int (n - m)"
    by (rule rnd_int)
  then show ?thesis
    by (simp add: val_minus assms(1,2))
qed

lemma lerp_between_exact:
  assumes "val (b - a) = val b - val a" and "0 \<le> t" and "t \<le> 1"
  shows "min a b \<le> lerp a b t \<and> lerp a b t \<le> max a b"
  using lerp_mono [OF assms(3), of a b] lerp_from [OF assms(2), of a b]
  by (auto simp: lerp_1_exact [OF assms(1)] min_def max_def)

lemma rnd_seven_tenths: "rnd (7 / 10) = 6305039478318694 / 2 ^ 53"
  using rnd_eqI_neg [of 1 "7 / 10" 6305039478318694] by simp

lemma rnd_one_tenth: "rnd (1 / 10) = 7205759403792794 / 2 ^ 56"
  using rnd_eqI_neg [of 4 "1 / 10" 7205759403792794] by simp

lemma rnd_tenths_diff:
  "rnd (7205759403792794 / 2 ^ 56 - 6305039478318694 / 2 ^ 53) = - (5404319552844595 / 2 ^ 53)"
  using rnd_eqI_neg [of 1 "7205759403792794 / 2 ^ 56 - 6305039478318694 / 2 ^ 53" "- 5404319552844595"]
  by simp

lemma rnd_tenths_sum:
  "rnd (6305039478318694 / 2 ^ 53 + - (5404319552844595 / 2 ^ 53)) = 900719925474099 / 2 ^ 53"
proof -
  have "6305039478318694 / 2 ^ 53 + - (5404319552844595 / 2 ^ 53)
      = (of_int 900719925474099 / 2 ^ 53 :: real)"
    by simp
  then show ?thesis
    using rnd_dyadic [of 900719925474099 53] by simp
qed

lemma lerp_tenths:
  "val (lerp (dbl (7 / 10)) (dbl (1 / 10)) 1) = 900719925474099 / 2 ^ 53
   \<and> val (dbl (1 / 10)) = 7205759403792794 / 2 ^ 56
   \<and> val (dbl (7 / 10)) = 6305039478318694 / 2 ^ 53"
proof -
  have a: "val (dbl (7 / 10)) = 6305039478318694 / 2 ^ 53"
    unfolding val_dbl by (rule rnd_seven_tenths)
  have b: "val (dbl (1 / 10)) = 7205759403792794 / 2 ^ 56"
    unfolding val_dbl by (rule rnd_one_tenth)
  have d: "val (dbl (1 / 10) - dbl (7 / 10)) = - (5404319552844595 / 2 ^ 53)"
    unfolding val_minus a b by (rule rnd_tenths_diff)
  have "val (dbl (7 / 10) + (dbl (1 / 10) - dbl (7 / 10)) * 1) = 900719925474099 / 2 ^ 53"
    unfolding mult_one_double val_plus a d by (rule rnd_tenths_sum)
  then show ?thesis
    using a b by (simp only: lerp_def)
qed

lemma rnd_1e16: "rnd 10000000000000000 = 10000000000000000"
  using rnd_exact [of 152587890625 16] p2_nat [of 16] by simp

lemma rnd_1e16_diff: "rnd (- 9999999999999999) = - 10000000000000000"
proof -
  have e: "expo (- 9999999999999999) = 53"
    using p2_nat [of 53] p2_nat [of 54] by (intro expo_eqI) simp_all
  have u: "ulp (- 9999999999999999) = 2"
    using p2_nat [of 1] by (simp add: ulp_def e del: ulp_minus expo_minus)
  have "roundHalfEven (- 9999999999999999 / 2) = - 5000000000000000"
    by (simp add: roundHalfEven_def Let_def)
  then show ?thesis
    by (simp add: rnd_def u del: ulp_minus)
qed

lemma lerp_1e16: "lerp (dbl 10000000000000000) 1 1 = 0"
  by (simp add: lerp_def double_eq_iff val_plus val_minus rnd_1e16 rnd_1e16_diff)

text \<open>
  Claim C1, as stated, is false of the doubles the code computes with.  A patch is on its
  way from \<open>x = 0.7\<close> to \<open>x = 0.1\<close> (the doubles nearest to these decimals) and from
  \<open>y = 1e16\<close> to \<open>y = 1\<close>.  At progress 1 \<^verbatim>\<open>advanceInterpolations\<close> gives it
  \<open>x = 900719925474099 / 2 ^ 53\<close>, which is \<open>0.09999999999999998\<close>, and \<open>y = 0\<close>: the
  differences \<open>0.1 - 0.7\<close> and \<open>1 - 1e16\<close> have been rounded.  The rectangle is not the
  animate-to rectangle, and neither \<open>x\<close> nor \<open>y\<close> is between the two values: each lies
  below both.
\<close>

theorem advance_misses_target_counterexample:
  "(let A = \<lparr>rect_x = dbl (7 / 10), rect_y = dbl 10000000000000000, rect_w = 1, rect_h = 1\<rparr>;
        B = \<lparr>rect_x = dbl (1 / 10), rect_y = 1, rect_w = 1, rect_h = 1\<rparr>;
        H = modify 0 (\<lambda>p. p\<lparr>animFrom := Some A, animTo := Some B\<rparr>) demoHeap;
        R = rect (cells (fst (advanceInterpolations (H, demoState) 1)) 0)
    in animFrom (cells H 0) = Some A \<and> animTo (cells H 0) = Some B
       \<and> R \<noteq> B \<and> rect_x R < rect_x B \<and> rect_x B < rect_x A
       \<and> val (rect_x R) = 900719925474099 / 2 ^ 53
       \<and> val (rect_x B) = 7205759403792794 / 2 ^ 56
       \<and> rect_y R = 0 \<and> rect_y R < rect_y B \<and> rect_y B < rect_y A)"
proof -
  let ?A = "\<lparr>rect_x = dbl (7 / 10), rect_y = dbl 10000000000000000, rect_w = 1, rect_h = 1\<rparr>"
  let ?B = "\<lparr>rect_x = dbl (1 / 10), rect_y = 1, rect_w = 1, rect_h = 1\<rparr>"
  let ?H = "modify 0 (\<lambda>p. p\<lparr>animFrom := Some ?A, animTo := Some ?B\<rparr>) demoHeap"
  let ?R = "rect (cells (fst (advanceInterpolations (?H, demoState) 1)) 0)"
  have x: "rect_x ?R = lerp (dbl (7 / 10)) (dbl (1 / 10)) 1"
    by (simp add: cells_advance cells_modify advancePatch_def lerpRect_def demoState_def)
  have y: "rect_y ?R = 0"
    by (simp add: cells_advance cells_modify advancePatch_def lerpRect_def demoState_def lerp_1e16)
  have v: "val (rect_x ?R) = 900719925474099 / 2 ^ 53"
    unfolding x using lerp_tenths by blast
  have b: "val (dbl (1 / 10)) = 7205759403792794 / 2 ^ 56"
    and a: "val (dbl (7 / 10)) = 6305039478318694 / 2 ^ 53"
    using lerp_tenths by blast+
  have lt: "rect_x ?R < dbl (1 / 10)"
    unfolding less_double_iff v b by simp
  have ba: "dbl (1 / 10) < dbl (7 / 10)"
    unfolding less_double_iff a b by simp
  have big: "1 < dbl 10000000000000000"
    by (simp add: less_double_iff rnd_1e16)
  have ne: "?R \<noteq> ?B"
    using lt by auto
  show ?thesis
    unfolding Let_def using v b lt ba ne y big by (simp add: cells_modify)
qed

text \<open>
  Claim C1, amended.  Let a patch of the state have animate-from \<open>A\<close> and animate-to \<open>B\<close>
  recorded, with coordinates of magnitude at most \<open>2 ^ 1022\<close> (so that no intermediate
  result leaves the finite doubles), and let \<open>0 \<le> p \<le> q \<le> 1\<close>.  After
  \<^verbatim>\<open>advanceInterpolations\<close> at \<open>p\<close> every coordinate \<open>c\<close> (\<open>x\<close>, \<open>y\<close>, \<open>w\<close>, \<open>h\<close>) of the
  patch's rectangle is \<open>c A + (c B - c A) * p\<close>, each operation rounded to a double.  The
  rectangle is \<open>A\<close> at progress 0.  Every coordinate is monotonic in the progress: from
  \<open>p\<close> to \<open>q\<close> it moves in the direction from \<open>A\<close> to \<open>B\<close> or stays, and it never lies on
  the far side of \<open>A\<close>.  For a coordinate whose difference \<open>c B - c A\<close> is computed without
  rounding error (as it is for whole numbers of magnitude below \<open>2 ^ 52\<close>, lemma
  \<open>diff_exact_int\<close>), the value at progress 1 is that of \<open>B\<close>, and the value at \<open>p\<close> lies
  between those of \<open>A\<close> and \<open>B\<close>.
\<close>

theorem advance_sets_lerp:
  assumes "(i, a) \<in> set (patches s)"
    and "animFrom (cells H a) = Some A" and "animTo (cells H a) = Some B"
    and "0 \<le> p" and "p \<le> q" and "q \<le> 1"
    and "\<forall>c\<in>{rect_x, rect_y, rect_w, rect_h}. \<bar>val (c A)\<bar> \<le> 2 ^ 1022 \<and> \<bar>val (c B)\<bar> \<le> 2 ^ 1022"
  shows "(let R = (\<lambda>t. rect (cells (fst (advanceInterpolations (H, s) t)) a)) in
      (\<forall>c\<in>{rect_x, rect_y, rect_w, rect_h}. c (R p) = c A + (c B - c A) * p)
    \<and> R 0 = A
    \<and> (\<forall>c\<in>{rect_x, rect_y, rect_w, rect_h}.
          (c A \<le> c B \<longrightarrow> c A \<le> c (R p) \<and> c (R p) \<le> c (R q))
        \<and> (c B \<le> c A \<longrightarrow> c (R q) \<le> c (R p) \<and> c (R p) \<le> c A)
        \<and> (val (c B - c A) = val (c B) - val (c A) \<longrightarrow>
              c (R 1) = c B \<and> min (c A) (c B) \<le> c (R p) \<and> c (R p) \<le> max (c A) (c B))))"
proof -
  have mem: "a \<in> snd ` set (patches s)" using assms(1) by force
  have cell: "rect (cells (fst (advanceInterpolations (H, s) t)) a) = lerpRect A B t" for t
    using mem assms(2,3) by (simp add: cells_advance advancePatch_def)
  have p1: "p \<le> 1" using assms(5,6) by simp
  have e0: "lerpRect A B 0 = A" by (simp add: lerpRect_def lerp_0)
  have formula: "\<forall>c\<in>{rect_x, rect_y, rect_w, rect_h}. c (lerpRect A B p) = c A + (c B - c A) * p"
    by (simp add: lerpRect_def lerp_def)
  have mono: "\<forall>c\<in>{rect_x, rect_y, rect_w, rect_h}.
          (c A \<le> c B \<longrightarrow> c A \<le> c (lerpRect A B p) \<and> c (lerpRect A B p) \<le> c (lerpRect A B q))
        \<and> (c B \<le> c A \<longrightarrow> c (lerpRect A B q) \<le> c (lerpRect A B p) \<and> c (lerpRect A B p) \<le> c A)"
    using lerp_from [OF assms(4)] lerp_mono [OF assms(5)]
    by (simp add: lerpRect_def)
  have exact: "\<forall>c\<in>{rect_x, rect_y, rect_w, rect_h}.
          val (c B - c A) = val (c B) - val (c A) \<longrightarrow>
              c (lerpRect A B 1) = c B
              \<and> min (c A) (c B) \<le> c (lerpRect A B p) \<and> c (lerpRect A B p) \<le> max (c A) (c B)"
    using lerp_between_exact [OF _ assms(4) p1] lerp_1_exact
    by (simp add: lerpRect_def)
  show ?thesis unfolding Let_def cell using e0 formula mono exact by simp
qed

text \<open>
  The demonstration patch \<open>q0\<close>, half-way from its initial rectangle \<open>(6, 7, 3, 3)\<close> to
  \<open>(8, 7, 4, 3)\<close>: every operation is exact here, and the rectangle is \<open>(7, 7, 3.5, 3)\<close>.
\<close>

theorem advance_sets_lerp_witness:
  "rect (cells (fst (advanceInterpolations
       (modify 0 (\<lambda>p. p\<lparr>animFrom := Some (rect p),
                          animTo := Some \<lparr>rect_x = dbl 8, rect_y = dbl 7, rect_w = dbl 4, rect_h = dbl 3\<rparr>\<rparr>) demoHeap,
        demoState) (dbl (1 / 2)))) 0)
     = \<lparr>rect_x = dbl 7, rect_y = dbl 7, rect_w = dbl (7 / 2), rect_h = dbl 3\<rparr>"
proof -
  let ?H = "modify 0 (\<lambda>p. p\<lparr>animFrom := Some (rect p),
                          animTo := Some \<lparr>rect_x = dbl 8, rect_y = dbl 7, rect_w = dbl 4, rect_h = dbl 3\<rparr>\<rparr>) demoHeap"
  let ?A = "\<lparr>rect_x = dbl 6, rect_y = dbl 7, rect_w = dbl 3, rect_h = dbl 3\<rparr>"
  let ?B = "\<lparr>rect_x = dbl 8, rect_y = dbl 7, rect_w = dbl 4, rect_h = dbl 3\<rparr>"
  have h1: "(''q0'', 0) \<in> set (patches demoState)" by (simp add: demoState_def)
  have h2: "animFrom (cells ?H 0) = Some ?A"
    by (simp add: cells_modify demoHeap_def runtimePatch_def demoQ0_def)
  have h3: "animTo (cells ?H 0) = Some ?B"
    by (simp add: cells_modify)
  have h4: "0 \<le> dbl (1 / 2)" "dbl (1 / 2) \<le> dbl (1 / 2)" "dbl (1 / 2) \<le> 1"
    by (simp_all add: le_double_iff)
  have h5: "\<forall>c\<in>{rect_x, rect_y, rect_w, rect_h}. \<bar>val (c ?A)\<bar> \<le> 2 ^ 1022 \<and> \<bar>val (c ?B)\<bar> \<le> 2 ^ 1022"
    by simp
  from advance_sets_lerp [OF h1 h2 h3 h4 h5]
  have "\<forall>c\<in>{rect_x, rect_y, rect_w, rect_h}.
      c (rect (cells (fst (advanceInterpolations (?H, demoState) (dbl (1 / 2)))) 0))
        = c ?A + (c ?B - c ?A) * dbl (1 / 2)"
    by (simp add: Let_def)
  then show ?thesis by (intro Rect.equality) (simp_all add: double_arith)
qed

section \<open>Rotation of the boundary kinds\<close>

lemma modify_modify: "modify a f (modify a g H) = modify a (\<lambda>p. f (g p)) H"
  by (simp add: modify_def)

lemma modify_same: "f (cells H a) = cells H a \<Longrightarrow> modify a f H = H"
  by (simp add: modify_def)

lemma commit_RotateEdges_present:
  "map_of (patches s) i = Some a \<Longrightarrow>
   commitAction (RotateEdges i) (H, s) =
     (modify a (\<lambda>p. p\<lparr>edges := \<lparr>edge_top = edge_left (edges p), edge_right = edge_top (edges p),
                                  edge_bottom = edge_right (edges p),
                                  edge_left = edge_bottom (edges p)\<rparr>\<rparr>) H, s)"
  by simp

text \<open>
  Claim C6.  For a patch of the state, committing \<open>RotateEdges\<close> gives it the boundary kinds
  new top = old left, new right = old top, new bottom = old right, new left = old bottom,
  and committing it four times in succession (as four calls, or as one batch of four)
  gives back the state it started from.
\<close>

theorem rotateEdges_four_cycle:
  assumes "map_of (patches s) i = Some a"
  shows "edges (cells (fst (commitAction (RotateEdges i) (H, s))) a) =
           \<lparr>edge_top = edge_left (edges (cells H a)), edge_right = edge_top (edges (cells H a)),
            edge_bottom = edge_right (edges (cells H a)),
            edge_left = edge_bottom (edges (cells H a))\<rparr>
    \<and> commitAction (RotateEdges i) (commitAction (RotateEdges i)
         (commitAction (RotateEdges i) (commitAction (RotateEdges i) (H, s)))) = (H, s)
    \<and> commitActions (H, s) (replicate 4 (RotateEdges i)) = (H, s)"
proof -
  let ?rot = "\<lambda>p :: RuntimePatch. p\<lparr>edges := \<lparr>edge_top = edge_left (edges p),
     edge_right = edge_top (edges p), edge_bottom = edge_right (edges p),
     edge_left = edge_bottom (edges p)\<rparr>\<rparr>"
  have step: "commitAction (RotateEdges i) (H', s) = (modify a ?rot H', s)" for H'
    using assms by (rule commit_RotateEdges_present)
  have fst1: "edges (cells (fst (commitAction (RotateEdges i) (H, s))) a) =
           \<lparr>edge_top = edge_left (edges (cells H a)), edge_right = edge_top (edges (cells H a)),
            edge_bottom = edge_right (edges (cells H a)),
            edge_left = edge_bottom (edges (cells H a))\<rparr>"
    using assms by (simp add: cells_modify)
  have cyc: "?rot (?rot (?rot (?rot p))) = p" for p
    by simp
  have four: "commitAction (RotateEdges i) (commitAction (RotateEdges i)
         (commitAction (RotateEdges i) (commitAction (RotateEdges i) (H, s)))) = (H, s)"
    unfolding step modify_modify by (simp add: modify_same)
  have "replicate 4 (RotateEdges i) = [RotateEdges i, RotateEdges i, RotateEdges i, RotateEdges i]"
    by (simp add: numeral_eq_Suc)
  then have batch: "commitActions (H, s) (replicate 4 (RotateEdges i)) = (H, s)"
    using four by (simp add: commitActions_def)
  show ?thesis using fst1 four batch by blast
qed

text \<open>
  The step \<open>rotate edges\<close> of the demonstration program: from top Z, right X, bottom Z,
  left X to top X, right Z, bottom X, left Z.
\<close>

theorem rotateEdges_four_cycle_witness:
  "edges (cells (fst (commitAction (RotateEdges ''q0'') (demoHeap, demoState))) 0) =
     \<lparr>edge_top = EdgeX, edge_right = EdgeZ, edge_bottom = EdgeX, edge_left = EdgeZ\<rparr>
   \<and> commitActions (demoHeap, demoState) (replicate 4 (RotateEdges ''q0'')) = (demoHeap, demoState)"
proof -
  have h: "map_of (patches demoState) ''q0'' = Some 0" by (simp add: demoState_def)
  have e: "edges (cells demoHeap 0) = demoEdges"
    by (simp add: demoHeap_def runtimePatch_def demoQ0_def)
  from rotateEdges_four_cycle [OF h, of demoHeap] show ?thesis
    by (simp add: e demoEdges_def)
qed

section \<open>What one action leaves alone\<close>

lemma patches_prepareAction: "patches (snd (prepareAction act hs)) = patches (snd hs)"
  by (cases hs; cases act) (simp_all split: option.splits)

lemma patches_prepare_fold: "patches (snd (fold prepareAction acts hs)) = patches (snd hs)"
  by (induction acts arbitrary: hs) (simp_all add: patches_prepareAction)

lemma patches_prepareTick: "patches (snd (prepareTick hs acts)) = patches (snd hs)"
  by (cases hs) (simp add: prepareTick_def clearOverlay_def patches_prepare_fold)

lemma patches_advance: "patches (snd (advanceInterpolations hs t)) = patches (snd hs)"
  by (cases hs) (simp add: snd_advance)

lemma patches_advances:
  "patches (snd (fold (\<lambda>t hs. advanceInterpolations hs t) ts hs)) = patches (snd hs)"
  by (induction ts arbitrary: hs) (simp_all add: patches_advance)

section \<open>Commit of a deformation\<close>

text \<open>
  Claim C2.  Let the state hold a patch under the identifier \<open>i\<close>.  Whatever calls of
  \<open>advanceInterpolations\<close> (any number, with any progress values \<open>ts\<close>) came before,
  committing \<open>DeformTo i R\<close>, as one action or as a batch, leaves the patch with exactly
  the rectangle \<open>R\<close> and with animate-from and animate-to cleared.
\<close>

theorem commit_DeformTo_exact:
  assumes "map_of (patches s) i = Some a"
  shows "rect (cells (fst (commitAction (DeformTo i R tc)
             (fold (\<lambda>t hs. advanceInterpolations hs t) ts (H, s)))) a) = R
    \<and> animFrom (cells (fst (commitAction (DeformTo i R tc)
             (fold (\<lambda>t hs. advanceInterpolations hs t) ts (H, s)))) a) = None
    \<and> animTo (cells (fst (commitAction (DeformTo i R tc)
             (fold (\<lambda>t hs. advanceInterpolations hs t) ts (H, s)))) a) = None
    \<and> commitActions (fold (\<lambda>t hs. advanceInterpolations hs t) ts (H, s)) [DeformTo i R tc]
        = commitAction (DeformTo i R tc) (fold (\<lambda>t hs. advanceInterpolations hs t) ts (H, s))
    \<and> map_of (patches (snd (commitAction (DeformTo i R tc)
             (fold (\<lambda>t hs. advanceInterpolations hs t) ts (H, s))))) i = Some a"
proof -
  obtain H' s' where adv: "fold (\<lambda>t hs. advanceInterpolations hs t) ts (H, s) = (H', s')"
    by (cases "fold (\<lambda>t hs. advanceInterpolations hs t) ts (H, s)")
  have "patches s' = patches s"
    using patches_advances [of ts "(H, s)"] by (simp add: adv)
  then have look: "map_of (patches s') i = Some a"
    using assms by simp
  show ?thesis
    unfolding adv by (simp add: look cells_modify commitActions_def)
qed

text \<open>
  The step \<open>approach\<close> of the demonstration program for \<open>q0\<close>: prepared, advanced to a
  third and then to the end of the tick, and committed.
\<close>

theorem commit_DeformTo_exact_witness:
  "rect (cells (fst (commitAction (DeformTo ''q0'' \<lparr>rect_x = dbl 8, rect_y = dbl 7, rect_w = dbl 4, rect_h = dbl 3\<rparr> None)
       (fold (\<lambda>t hs. advanceInterpolations hs t) [dbl (1 / 3), 1]
          (prepareTick (demoHeap, demoState)
             [DeformTo ''q0'' \<lparr>rect_x = dbl 8, rect_y = dbl 7, rect_w = dbl 4, rect_h = dbl 3\<rparr> None])))) 0)
     = \<lparr>rect_x = dbl 8, rect_y = dbl 7, rect_w = dbl 4, rect_h = dbl 3\<rparr>"
proof -
  obtain H' s' where prep: "prepareTick (demoHeap, demoState)
      [DeformTo ''q0'' \<lparr>rect_x = dbl 8, rect_y = dbl 7, rect_w = dbl 4, rect_h = dbl 3\<rparr> None] = (H', s')"
    by (cases "prepareTick (demoHeap, demoState)
      [DeformTo ''q0'' \<lparr>rect_x = dbl 8, rect_y = dbl 7, rect_w = dbl 4, rect_h = dbl 3\<rparr> None]")
  have "patches s' = patches demoState"
    using patches_prepareTick [of "(demoHeap, demoState)"
        "[DeformTo ''q0'' \<lparr>rect_x = dbl 8, rect_y = dbl 7, rect_w = dbl 4, rect_h = dbl 3\<rparr> None]"]
    unfolding prep by simp
  then have h: "map_of (patches s') ''q0'' = Some 0"
    by (simp add: demoState_def)
  show ?thesis
    unfolding prep using commit_DeformTo_exact [OF h] by blast
qed

section \<open>Translation of a patch\<close>

lemma lerp_same: "lerp a a t = a"
  by (simp add: lerp_def)

text \<open>
  Claim C9.  For a patch of the state, \<open>prepareAction\<close> of \<open>MoveTo\<close> records the current
  rectangle as animate-from and, as animate-to, the current rectangle with only \<open>x\<close> and \<open>y\<close>
  replaced by the target position; it leaves the rectangle itself alone, and an advance at
  any progress that follows keeps the width and the height.  \<open>commitAction\<close> of \<open>MoveTo\<close>
  writes \<open>x\<close> and \<open>y\<close> only: width, height, boundary kinds, label and identifier stay, and
  animate-from and animate-to are cleared.  Neither touches the map or the overlay.
\<close>

theorem moveTo_keeps_size:
  assumes "map_of (patches s) i = Some a"
  shows "animFrom (cells (fst (prepareAction (MoveTo i to tc) (H, s))) a) = Some (rect (cells H a))
    \<and> animTo (cells (fst (prepareAction (MoveTo i to tc) (H, s))) a)
        = Some \<lparr>rect_x = point_x to, rect_y = point_y to,
                rect_w = rect_w (rect (cells H a)), rect_h = rect_h (rect (cells H a))\<rparr>
    \<and> rect (cells (fst (prepareAction (MoveTo i to tc) (H, s))) a) = rect (cells H a)
    \<and> rect_w (rect (cells (fst (advanceInterpolations (prepareAction (MoveTo i to tc) (H, s)) t)) a))
        = rect_w (rect (cells H a))
    \<and> rect_h (rect (cells (fst (advanceInterpolations (prepareAction (MoveTo i to tc) (H, s)) t)) a))
        = rect_h (rect (cells H a))
    \<and> cells (fst (commitAction (MoveTo i to tc) (H, s))) a
        = (cells H a)\<lparr>rect := \<lparr>rect_x = point_x to, rect_y = point_y to,
                                 rect_w = rect_w (rect (cells H a)), rect_h = rect_h (rect (cells H a))\<rparr>,
                       animFrom := None, animTo := None\<rparr>
    \<and> snd (prepareAction (MoveTo i to tc) (H, s)) = s
    \<and> snd (commitAction (MoveTo i to tc) (H, s)) = s"
proof -
  have mem: "a \<in> snd ` set (patches s)"
    using assms by (force dest: map_of_SomeD)
  have prep: "prepareAction (MoveTo i to tc) (H, s) =
      (modify a (\<lambda>p. p\<lparr>animFrom := Some (rect p),
            animTo := Some ((rect p)\<lparr>rect_x := point_x to, rect_y := point_y to\<rparr>)\<rparr>) H, s)"
    using assms by simp
  have adv_w: "rect_w (rect (cells (fst (advanceInterpolations (prepareAction (MoveTo i to tc) (H, s)) t)) a))
        = rect_w (rect (cells H a))"
    unfolding prep using mem
    by (simp add: cells_advance cells_modify advancePatch_def lerpRect_def lerp_same)
  have adv_h: "rect_h (rect (cells (fst (advanceInterpolations (prepareAction (MoveTo i to tc) (H, s)) t)) a))
        = rect_h (rect (cells H a))"
    unfolding prep using mem
    by (simp add: cells_advance cells_modify advancePatch_def lerpRect_def lerp_same)
  have com: "cells (fst (commitAction (MoveTo i to tc) (H, s))) a
        = (cells H a)\<lparr>rect := \<lparr>rect_x = point_x to, rect_y = point_y to,
                                 rect_w = rect_w (rect (cells H a)), rect_h = rect_h (rect (cells H a))\<rparr>,
                       animFrom := None, animTo := None\<rparr>"
    using assms by (simp add: cells_modify)
  show ?thesis
    using adv_w adv_h com assms by (simp add: cells_modify)
qed

text \<open>Moving the demonstration patch \<open>q0\<close> (3 by 3, at (6, 7)) to (10, 2).\<close>

theorem moveTo_keeps_size_witness:
  "cells (fst (commitAction (MoveTo ''q0'' \<lparr>point_x = dbl 10, point_y = dbl 2\<rparr> None) (demoHeap, demoState))) 0
     = \<lparr>patch_id = ''q0'', rect = \<lparr>rect_x = dbl 10, rect_y = dbl 2, rect_w = dbl 3, rect_h = dbl 3\<rparr>,
        edges = demoEdges, label = Some ''q0'', animFrom = None, animTo = None\<rparr>"
proof -
  have h: "map_of (patches demoState) ''q0'' = Some 0"
    by (simp add: demoState_def)
  show ?thesis
    using moveTo_keeps_size [OF h, of "\<lparr>point_x = dbl 10, point_y = dbl 2\<rparr>" None demoHeap]
    by (simp add: demoHeap_def runtimePatch_def demoQ0_def)
qed

section \<open>Dangling references\<close>

lemma dangling_prepare: "dangling (patches s) act \<Longrightarrow> prepareAction act (H, s) = (H, s)"
  by (cases act) (auto simp: dangling_def split: option.splits)

lemma dangling_commit:
  "dangling (patches s) act \<Longrightarrow> \<not> isTwoPatchMeas act \<Longrightarrow> commitAction act (H, s) = (H, s)"
proof (cases act)
  case (Discard i)
  assume "dangling (patches s) act"
  then have "map_of (patches s) i = None"
    using Discard by (simp add: dangling_def)
  then have "i \<notin> fst ` set (patches s)"
    by (simp add: map_of_eq_None_iff)
  then show ?thesis
    using Discard by simp
qed (auto simp: dangling_def)

lemma commit_TwoPatchMeas:
  "isTwoPatchMeas act \<Longrightarrow> commitAction act (H, s) = (H, s\<lparr>measurementOverlay := None\<rparr>)"
  by (cases act) simp_all

text \<open>
  Claim C5, as stated, at a concrete input: the batch that discards \<open>q0\<close> and then
  measures \<open>q0\<close> against \<open>q1\<close>, on the demonstration state.  \<open>prepareTick\<close> installs the
  overlay (both patches exist then).  In the commit the measurement comes after the
  discard, so it refers to an absent patch, and still it changes the state: it clears the
  overlay.
\<close>

theorem dangling_noop_counterexample:
  "dangling
     (patches (snd (commitAction (Discard ''q0'')
        (prepareTick (demoHeap, demoState)
           [Discard ''q0'',
            TwoPatchMeas \<lparr>side_id = ''q0'', side_edge = FaceRight\<rparr>
              \<lparr>side_id = ''q1'', side_edge = FaceLeft\<rparr> None]))))
     (TwoPatchMeas \<lparr>side_id = ''q0'', side_edge = FaceRight\<rparr>
        \<lparr>side_id = ''q1'', side_edge = FaceLeft\<rparr> None)
   \<and> commitAction (TwoPatchMeas \<lparr>side_id = ''q0'', side_edge = FaceRight\<rparr>
          \<lparr>side_id = ''q1'', side_edge = FaceLeft\<rparr> None)
        (commitAction (Discard ''q0'')
           (prepareTick (demoHeap, demoState)
              [Discard ''q0'',
               TwoPatchMeas \<lparr>side_id = ''q0'', side_edge = FaceRight\<rparr>
                 \<lparr>side_id = ''q1'', side_edge = FaceLeft\<rparr> None]))
      \<noteq> commitAction (Discard ''q0'')
           (prepareTick (demoHeap, demoState)
              [Discard ''q0'',
               TwoPatchMeas \<lparr>side_id = ''q0'', side_edge = FaceRight\<rparr>
                 \<lparr>side_id = ''q1'', side_edge = FaceLeft\<rparr> None])"
  by (simp add: prepareTick_def clearOverlay_def demoState_def dangling_def)

text \<open>
  Claim C5, amended.  An action that refers to an identifier absent from the patch map
  leaves the store and the state unchanged in \<open>prepareAction\<close>, and in \<open>commitAction\<close> too
  unless it is a \<open>TwoPatchMeas\<close>: committing a \<open>TwoPatchMeas\<close> clears the overlay whether
  its patches exist or not, and changes nothing else.  No result is an error.
\<close>

theorem dangling_noop:
  assumes "dangling (patches s) act"
  shows "prepareAction act (H, s) = (H, s)
    \<and> commitAction act (H, s)
        = (if isTwoPatchMeas act then (H, s\<lparr>measurementOverlay := None\<rparr>) else (H, s))"
  using assms by (simp add: dangling_prepare dangling_commit commit_TwoPatchMeas)

text \<open>A deformation of \<open>q0\<close> after \<open>q0\<close> was discarded from the demonstration state.\<close>

theorem dangling_noop_witness:
  "commitAction (DeformTo ''q0'' \<lparr>rect_x = dbl 8, rect_y = dbl 7, rect_w = dbl 4, rect_h = dbl 3\<rparr> None)
       (commitAction (Discard ''q0'') (demoHeap, demoState))
     = (demoHeap, \<lparr>patches = [(''q1'', 1)], measurementOverlay = None\<rparr>)"
proof -
  have d: "commitAction (Discard ''q0'') (demoHeap, demoState)
      = (demoHeap, \<lparr>patches = [(''q1'', 1)], measurementOverlay = None\<rparr>)"
    by (simp add: demoState_def)
  have h: "dangling (patches \<lparr>patches = [(''q1'', 1)], measurementOverlay = None\<rparr>)
      (DeformTo ''q0'' \<lparr>rect_x = dbl 8, rect_y = dbl 7, rect_w = dbl 4, rect_h = dbl 3\<rparr> None)"
    by (simp add: dangling_def)
  show ?thesis
    unfolding d using dangling_noop [OF h, of demoHeap] by simp
qed

section \<open>The measurement overlay after prepare\<close>

lemma overlay_prepareAction:
  "measurementOverlay (snd (prepareAction act (H, s))) =
     (case overlayOf (patches s) act of None \<Rightarrow> measurementOverlay s | Some ov \<Rightarrow> Some ov)"
  by (cases act) (simp_all split: option.splits)

lemma lastMeasOverlay_alt:
  "lastMeasOverlay m acts =
     (if filter (\<lambda>act. overlayOf m act \<noteq> None) acts = [] then None
      else overlayOf m (last (filter (\<lambda>act. overlayOf m act \<noteq> None) acts)))"
  by (simp add: lastMeasOverlay_def split: list.splits)

lemma lastMeasOverlay_snoc:
  "lastMeasOverlay m (acts @ [act]) =
     (case overlayOf m act of None \<Rightarrow> lastMeasOverlay m acts | Some ov \<Rightarrow> Some ov)"
  by (cases "overlayOf m act") (simp_all add: lastMeasOverlay_alt)

lemma overlay_prepare_fold:
  "measurementOverlay (snd (fold prepareAction acts (H, s))) =
     (case lastMeasOverlay (patches s) acts of None \<Rightarrow> measurementOverlay s | Some ov \<Rightarrow> Some ov)"
proof (induction acts rule: rev_induct)
  case Nil
  show ?case by (simp add: lastMeasOverlay_def)
next
  case (snoc act acts)
  obtain H' s' where f: "fold prepareAction acts (H, s) = (H', s')"
    by (cases "fold prepareAction acts (H, s)")
  have p: "patches s' = patches s"
    using patches_prepare_fold [of acts "(H, s)"] by (simp add: f)
  have o: "measurementOverlay s' =
     (case lastMeasOverlay (patches s) acts of None \<Rightarrow> measurementOverlay s | Some ov \<Rightarrow> Some ov)"
    using snoc.IH by (simp add: f)
  show ?case
    by (simp add: f overlay_prepareAction p o lastMeasOverlay_snoc split: option.splits)
qed

text \<open>
  Claim C3.  The state has one slot for the overlay (\<open>measurementOverlay\<close> is an optional
  value, so a state never holds two).  After \<open>prepareTick\<close> the slot does not depend on
  what it held before: it holds the overlay of the last \<open>TwoPatchMeas\<close> of the batch whose
  two patches exist (their addresses, the two edges, the outcome, progress 0), and nothing
  when the batch has no such action.  The patch map is the one before the call.
\<close>

theorem prepare_overlay_is_last:
  "measurementOverlay (snd (prepareTick (H, s) acts)) = lastMeasOverlay (patches s) acts
   \<and> patches (snd (prepareTick (H, s) acts)) = patches s"
proof -
  have "measurementOverlay (snd (fold prepareAction acts (H, s\<lparr>measurementOverlay := None\<rparr>)))
      = lastMeasOverlay (patches s) acts"
    using overlay_prepare_fold [of acts H "s\<lparr>measurementOverlay := None\<rparr>"]
    by (simp split: option.splits)
  then show ?thesis
    using patches_prepareTick [of "(H, s)" acts]
    by (simp add: prepareTick_def clearOverlay_def)
qed

text \<open>
  A batch of three joint measurements on the demonstration state that held an overlay
  before: the second refers to the absent \<open>q9\<close>, and the overlay is that of the third.
\<close>

theorem prepare_overlay_is_last_witness:
  "measurementOverlay (snd (prepareTick
       (demoHeap, demoState\<lparr>measurementOverlay :=
           Some \<lparr>ov_a = 1, aEdge = FaceTop, ov_b = 1, bEdge = FaceTop, outcome = None, progress = 1\<rparr>\<rparr>)
       [TwoPatchMeas \<lparr>side_id = ''q0'', side_edge = FaceRight\<rparr>
          \<lparr>side_id = ''q1'', side_edge = FaceLeft\<rparr> (Some OutcomePlus),
        TwoPatchMeas \<lparr>side_id = ''q9'', side_edge = FaceTop\<rparr>
          \<lparr>side_id = ''q1'', side_edge = FaceTop\<rparr> None,
        TwoPatchMeas \<lparr>side_id = ''q1'', side_edge = FaceBottom\<rparr>
          \<lparr>side_id = ''q0'', side_edge = FaceBottom\<rparr> (Some OutcomeMinus)]))
     = Some \<lparr>ov_a = 1, aEdge = FaceBottom, ov_b = 0, bEdge = FaceBottom,
             outcome = Some OutcomeMinus, progress = 0\<rparr>"
  using prepare_overlay_is_last [of demoHeap
      "demoState\<lparr>measurementOverlay :=
           Some \<lparr>ov_a = 1, aEdge = FaceTop, ov_b = 1, bEdge = FaceTop, outcome = None, progress = 1\<rparr>\<rparr>"]
  by (simp add: lastMeasOverlay_def demoState_def)

section \<open>Calling prepare twice\<close>

text \<open>
  A sequence of state transformers, each idempotent and each absorbing an earlier run of
  itself (\<open>f\<close>, then \<open>g\<close>, then \<open>f\<close> again is \<open>g\<close>, then \<open>f\<close>), does nothing new when it is
  run a second time.
\<close>

lemma fold_absorb:
  fixes F :: "('s \<Rightarrow> 's) set"
  assumes idem: "\<And>f x. f \<in> F \<Longrightarrow> f (f x) = f x"
    and band: "\<And>f g x. f \<in> F \<Longrightarrow> g \<in> F \<Longrightarrow> f (g (f x)) = f (g x)"
    and sub: "set gs \<subseteq> F" and mem: "f \<in> set gs"
  shows "fold (\<lambda>h. h) gs (f x) = fold (\<lambda>h. h) gs x"
  using sub mem
proof (induction gs arbitrary: x)
  case Nil
  then show ?case by simp
next
  case (Cons g gs)
  show ?case
  proof (cases "f = g")
    case True
    have "g \<in> F" using Cons.prems by simp
    then have "g (g x) = g x" by (rule idem)
    then show ?thesis using True by simp
  next
    case False
    then have fm: "f \<in> set gs" using Cons.prems by simp
    have sub': "set gs \<subseteq> F" using Cons.prems by simp
    have fF: "f \<in> F" using fm sub' by auto
    have gF: "g \<in> F" using Cons.prems by simp
    have "fold (\<lambda>h. h) (g # gs) (f x) = fold (\<lambda>h. h) gs (g (f x))" by simp
    also have "\<dots> = fold (\<lambda>h. h) gs (f (g (f x)))"
      using Cons.IH [OF sub' fm, of "g (f x)"] by simp
    also have "\<dots> = fold (\<lambda>h. h) gs (f (g x))"
      using band [OF fF gF] by simp
    also have "\<dots> = fold (\<lambda>h. h) gs (g x)"
      using Cons.IH [OF sub' fm] by simp
    finally show ?thesis by simp
  qed
qed

lemma fold_twice:
  fixes F :: "('s \<Rightarrow> 's) set"
  assumes idem: "\<And>f x. f \<in> F \<Longrightarrow> f (f x) = f x"
    and band: "\<And>f g x. f \<in> F \<Longrightarrow> g \<in> F \<Longrightarrow> f (g (f x)) = f (g x)"
    and sub: "set fs \<subseteq> F" and gs: "set gs \<subseteq> set fs"
  shows "fold (\<lambda>h. h) fs (fold (\<lambda>h. h) gs x) = fold (\<lambda>h. h) fs x"
  using gs
proof (induction gs arbitrary: x)
  case Nil
  show ?case by simp
next
  case (Cons g gs)
  have "fold (\<lambda>h. h) fs (fold (\<lambda>h. h) (g # gs) x) = fold (\<lambda>h. h) fs (g x)"
    using Cons by simp
  also have "\<dots> = fold (\<lambda>h. h) fs x"
    using Cons.prems by (intro fold_absorb [OF idem band sub]) simp_all
  finally show ?case .
qed

lemma prepareAction_idem:
  "prepareAction a (prepareAction a hs) = prepareAction a hs"
  by (cases a; cases hs) (auto simp: modify_def split: option.splits)

lemma prepareAction_band:
  "prepareAction a (prepareAction b (prepareAction a hs)) = prepareAction a (prepareAction b hs)"
  by (cases a; cases b; cases hs)
     (auto simp: modify_def fun_eq_iff split: option.splits intro!: Heap.equality)

lemma clearOverlay_idem: "clearOverlay (clearOverlay hs) = clearOverlay hs"
  by (cases hs) (simp add: clearOverlay_def)

lemma clear_prepare_clear:
  "clearOverlay (prepareAction a (clearOverlay hs)) = clearOverlay (prepareAction a hs)"
  by (cases a; cases hs) (auto simp: clearOverlay_def split: option.splits)

lemma prepare_clear_prepare:
  "prepareAction a (clearOverlay (prepareAction a hs)) = prepareAction a (clearOverlay hs)"
  by (cases a; cases hs) (auto simp: clearOverlay_def modify_def split: option.splits)

lemma prepareTick_as_fold:
  "prepareTick hs acts = fold (\<lambda>h. h) (clearOverlay # map prepareAction acts) hs"
  by (simp add: prepareTick_def fold_map comp_def)

lemma prepareTick_idem: "prepareTick (prepareTick hs acts) acts = prepareTick hs acts"
proof -
  let ?F = "insert clearOverlay (range prepareAction)"
  have idem: "f (f x) = f x" if "f \<in> ?F" for f x
    using that by (auto simp: clearOverlay_idem prepareAction_idem)
  have band: "f (g (f x)) = f (g x)" if "f \<in> ?F" and "g \<in> ?F" for f g x
    using that
    by (auto simp: clearOverlay_idem prepareAction_idem prepareAction_band clear_prepare_clear
        prepare_clear_prepare)
  have sub: "set (clearOverlay # map prepareAction acts) \<subseteq> ?F"
    by auto
  show ?thesis
    unfolding prepareTick_as_fold
    by (rule fold_twice [where F = ?F, OF idem band sub]) simp_all
qed

text \<open>
  Claim C8, as stated, is false: there is no state and batch for which a second call of
  \<open>prepareTick\<close>, with no advance in between, can be told from a single call.
\<close>

theorem prepare_twice_counterexample:
  "\<not> (\<exists>H s acts. snapshot (prepareTick (prepareTick (H, s) acts) acts)
        \<noteq> snapshot (prepareTick (H, s) acts))"
  by (simp add: prepareTick_idem)

text \<open>
  Claim C8, amended.  For every state and batch, calling \<open>prepareTick\<close> a second time with
  no advance in between gives the very state (and store) of calling it once.  A second call
  makes a difference only after an advance: for some state, batch and progress \<open>0 < p \<le> 1\<close>,
  preparing again after \<open>advanceInterpolations\<close> at \<open>p\<close> can be observed at once (the
  overlay's progress is back at 0, animate-from is the interpolated rectangle) and in the
  rectangles of a later advance at \<open>q\<close>.
\<close>

theorem prepare_twice_same_unless_advanced:
  "prepareTick (prepareTick hs acts) acts = prepareTick hs acts
   \<and> (\<exists>H s batch p q. 0 < p \<and> p \<le> q \<and> q \<le> 1
        \<and> snapshot (prepareTick (advanceInterpolations (prepareTick (H, s) batch) p) batch)
            \<noteq> snapshot (advanceInterpolations (prepareTick (H, s) batch) p)
        \<and> map (\<lambda>(k, v). rect v) (fst (snapshot (advanceInterpolations
              (prepareTick (advanceInterpolations (prepareTick (H, s) batch) p) batch) q)))
            \<noteq> map (\<lambda>(k, v). rect v) (fst (snapshot (advanceInterpolations
              (advanceInterpolations (prepareTick (H, s) batch) p) q))))"
proof -
  let ?batch = "[DeformTo ''q0'' \<lparr>rect_x = dbl 8, rect_y = dbl 7, rect_w = dbl 4, rect_h = dbl 3\<rparr> None,
     TwoPatchMeas \<lparr>side_id = ''q0'', side_edge = FaceRight\<rparr>
       \<lparr>side_id = ''q1'', side_edge = FaceLeft\<rparr> (Some OutcomePlus)]"
  have now: "snapshot (prepareTick (advanceInterpolations
                (prepareTick (demoHeap, demoState) ?batch) (dbl (1 / 2))) ?batch)
        \<noteq> snapshot (advanceInterpolations (prepareTick (demoHeap, demoState) ?batch) (dbl (1 / 2)))"
    by (simp add: snapshot_def prepareTick_def clearOverlay_def advanceInterpolations_def
        overlayView_def demoState_def double_eq_iff)
  have later: "map (\<lambda>(k, v). rect v) (fst (snapshot (advanceInterpolations
              (prepareTick (advanceInterpolations (prepareTick (demoHeap, demoState) ?batch) (dbl (1 / 2)))
                 ?batch) (dbl (3 / 4)))))
      \<noteq> map (\<lambda>(k, v). rect v) (fst (snapshot (advanceInterpolations
              (advanceInterpolations (prepareTick (demoHeap, demoState) ?batch) (dbl (1 / 2))) (dbl (3 / 4)))))"
    by (simp add: snapshot_def prepareTick_def clearOverlay_def advanceInterpolations_def
        modify_def advancePatch_def lerpRect_def lerp_def demoState_def demoHeap_def
        runtimePatch_def demoQ0_def double_arith)
  have "0 < dbl (1 / 2) \<and> dbl (1 / 2) \<le> dbl (3 / 4) \<and> dbl (3 / 4) \<le> 1"
    by (simp add: le_double_iff less_double_iff)
  with now later show ?thesis
    using prepareTick_idem by blast
qed

section \<open>Cloning\<close>

lemma nxt_clonePatches: "nxt (fst (clonePatches l (H, m))) = nxt H + length l"
  by (induction l arbitrary: H m) (auto simp: alloc_def)

lemma cells_clonePatches_old:
  "a < nxt H \<Longrightarrow> cells (fst (clonePatches l (H, m))) a = cells H a"
  by (induction l arbitrary: H m) (auto simp: alloc_def)

lemma update_shift:
  "AList.update k (a + d) (map (\<lambda>(k, a). (k, a + d)) m) = map (\<lambda>(k, a). (k, a + d)) (AList.update k a m)"
  by (induction m) auto

lemma delete_shift:
  "AList.delete k (map (\<lambda>(k, a). (k, a + d)) m) = map (\<lambda>(k, a). (k, a + (d::nat))) (AList.delete k m)"
  by (induction m) auto

lemma map_of_shift:
  "map_of (map (\<lambda>(k, a). (k, a + d)) m) i = map_option (\<lambda>a. a + (d::nat)) (map_of m i)"
  by (induction m) auto

lemma list_all_update:
  "list_all P m \<Longrightarrow> P (k, v) \<Longrightarrow> list_all P (AList.update k v m)"
  by (induction m) auto

lemma list_all_delete: "list_all P m \<Longrightarrow> list_all P (AList.delete k m)"
  by (induction m) auto

lemma list_all_map_of: "list_all P m \<Longrightarrow> map_of m i = Some a \<Longrightarrow> P (i, a)"
  by (induction m) (auto split: if_splits)

section \<open>The relation between two runs is kept by every operation\<close>

lemma shifted_lookup:
  assumes "shifted n d (H, s) (H', s')"
  shows "map_of (patches s') i = map_option (\<lambda>a. a + d) (map_of (patches s) i)"
    and "map_of (patches s) i = Some a \<Longrightarrow> n \<le> a \<and> a < nxt H \<and> cells H' (a + d) = cells H a"
proof -
  show "map_of (patches s') i = map_option (\<lambda>a. a + d) (map_of (patches s) i)"
    using assms by (simp add: shifted_def map_of_shift)
  assume look: "map_of (patches s) i = Some a"
  have "list_all (\<lambda>(k, a). n \<le> a \<and> a < nxt H) (patches s)"
    using assms by (simp add: shifted_def inRange_def)
  from list_all_map_of [OF this look] have "n \<le> a \<and> a < nxt H" by simp
  then show "n \<le> a \<and> a < nxt H \<and> cells H' (a + d) = cells H a"
    using assms by (simp add: shifted_def)
qed

lemma shifted_modify:
  assumes "shifted n d (H, s) (H', s')" and "n \<le> a" and "a < nxt H"
  shows "shifted n d (modify a f H, s) (modify (a + d) f H', s')"
  using assms by (auto simp: shifted_def inRange_def modify_def split: option.splits)

lemma shifted_no_overlay:
  assumes "shifted n d (H, s) (H', s')"
  shows "shifted n d (H, s\<lparr>measurementOverlay := None\<rparr>) (H', s'\<lparr>measurementOverlay := None\<rparr>)"
  using assms by (auto simp: shifted_def inRange_def split: option.splits)

lemma shifted_set_overlay:
  assumes "shifted n d (H, s) (H', s')"
    and "n \<le> ov_a ov" and "ov_a ov < nxt H" and "n \<le> ov_b ov" and "ov_b ov < nxt H"
  shows "shifted n d (H, s\<lparr>measurementOverlay := Some ov\<rparr>)
           (H', s'\<lparr>measurementOverlay := Some (shiftOverlay d ov)\<rparr>)"
  using assms by (auto simp: shifted_def inRange_def split: option.splits)

lemma shifted_alloc:
  assumes "shifted n d (H, s) (H', s')"
  shows "shifted n d
      (\<lparr>cells = (cells H)(nxt H := v), nxt = Suc (nxt H)\<rparr>,
       s\<lparr>patches := AList.update k (nxt H) (patches s)\<rparr>)
      (\<lparr>cells = (cells H')(nxt H' := v), nxt = Suc (nxt H')\<rparr>,
       s'\<lparr>patches := AList.update k (nxt H') (patches s')\<rparr>)"
proof -
  have r: "list_all (\<lambda>(k, a). n \<le> a \<and> a < nxt H) (patches s)" and n: "n \<le> nxt H"
    and x: "nxt H' = nxt H + d"
    using assms by (simp_all add: shifted_def inRange_def)
  have "list_all (\<lambda>(k, a). n \<le> a \<and> a < Suc (nxt H)) (patches s)"
    using r by (auto simp: list_all_iff)
  then have "list_all (\<lambda>(k, a). n \<le> a \<and> a < Suc (nxt H)) (AList.update k (nxt H) (patches s))"
    using n by (intro list_all_update) simp_all
  moreover have "AList.update k (nxt H') (patches s')
      = map (\<lambda>(k, a). (k, a + d)) (AList.update k (nxt H) (patches s))"
    using assms by (simp add: shifted_def update_shift)
  ultimately show ?thesis
    using assms by (auto simp: shifted_def inRange_def split: option.splits)
qed

lemma shifted_delete:
  assumes "shifted n d (H, s) (H', s')"
  shows "shifted n d (H, s\<lparr>patches := AList.delete k (patches s)\<rparr>)
           (H', s'\<lparr>patches := AList.delete k (patches s')\<rparr>)"
  using assms by (auto simp: shifted_def inRange_def delete_shift list_all_delete split: option.splits)

lemma shifted_prepareAction:
  assumes "shifted n d hs hs'"
  shows "shifted n d (prepareAction act hs) (prepareAction act hs')"
proof -
  obtain H s H' s' where hs: "hs = (H, s)" "hs' = (H', s')"
    by (cases hs; cases hs') auto
  note sh = assms [unfolded hs]
  note look = shifted_lookup [OF sh]
  show ?thesis
  proof (cases act)
    case (DeformTo i to tc)
    show ?thesis
    proof (cases "map_of (patches s) i")
      case None
      then show ?thesis using sh look(1) [of i] by (simp add: hs DeformTo)
    next
      case (Some a)
      then show ?thesis
        using look(1) [of i] look(2) [OF Some] shifted_modify [OF sh, of a]
        by (simp add: hs DeformTo)
    qed
  next
    case (MoveTo i to tc)
    show ?thesis
    proof (cases "map_of (patches s) i")
      case None
      then show ?thesis using sh look(1) [of i] by (simp add: hs MoveTo)
    next
      case (Some a)
      then show ?thesis
        using look(1) [of i] look(2) [OF Some] shifted_modify [OF sh, of a]
        by (simp add: hs MoveTo)
    qed
  next
    case (TwoPatchMeas lhs rhs oc)
    show ?thesis
    proof (cases "map_of (patches s) (side_id lhs)")
      case None
      then show ?thesis using sh look(1) [of "side_id lhs"] by (simp add: hs TwoPatchMeas)
    next
      case a: (Some a)
      show ?thesis
      proof (cases "map_of (patches s) (side_id rhs)")
        case None
        then show ?thesis
          using sh a look(1) [of "side_id lhs"] look(1) [of "side_id rhs"]
          by (simp add: hs TwoPatchMeas)
      next
        case b: (Some b)
        let ?ov = "\<lparr>ov_a = a, aEdge = side_edge lhs, ov_b = b, bEdge = side_edge rhs,
                         outcome = oc, progress = 0\<rparr>"
        have "shifted n d (H, s\<lparr>measurementOverlay := Some ?ov\<rparr>)
           (H', s'\<lparr>measurementOverlay := Some (shiftOverlay d ?ov)\<rparr>)"
          using look(2) [OF a] look(2) [OF b] by (intro shifted_set_overlay [OF sh]) simp_all
        then show ?thesis
          using a b look(1) [of "side_id lhs"] look(1) [of "side_id rhs"]
          by (simp add: hs TwoPatchMeas shiftOverlay_def)
      qed
    qed
  qed (use sh in \<open>simp_all add: hs\<close>)
qed

lemma shifted_clearOverlay:
  "shifted n d hs hs' \<Longrightarrow> shifted n d (clearOverlay hs) (clearOverlay hs')"
  by (cases hs; cases hs') (simp add: clearOverlay_def shifted_no_overlay)

lemma shifted_fold:
  assumes step: "\<And>act hs hs'. shifted n d hs hs' \<Longrightarrow> shifted n d (f act hs) (f act hs')"
  shows "shifted n d hs hs' \<Longrightarrow> shifted n d (fold f acts hs) (fold f acts hs')"
  by (induction acts arbitrary: hs hs') (simp_all add: step)

lemma shifted_prepareTick:
  "shifted n d hs hs' \<Longrightarrow> shifted n d (prepareTick hs acts) (prepareTick hs' acts)"
  unfolding prepareTick_def
  by (intro shifted_fold shifted_prepareAction shifted_clearOverlay)

lemma shifted_commitAction:
  assumes "shifted n d hs hs'"
  shows "shifted n d (commitAction act hs) (commitAction act hs')"
proof -
  obtain H s H' s' where hs: "hs = (H, s)" "hs' = (H', s')"
    by (cases hs; cases hs') auto
  note sh = assms [unfolded hs]
  note look = shifted_lookup [OF sh]
  have modcase: "shifted n d
      (case map_of (patches s) i of None \<Rightarrow> (H, s) | Some a \<Rightarrow> (modify a f H, s))
      (case map_of (patches s') i of None \<Rightarrow> (H', s') | Some a \<Rightarrow> (modify a f H', s'))" for i f
  proof (cases "map_of (patches s) i")
    case None
    then show ?thesis using sh look(1) [of i] by simp
  next
    case (Some a)
    then show ?thesis
      using look(1) [of i] look(2) [OF Some] shifted_modify [OF sh, of a] by simp
  qed
  show ?thesis
  proof (cases act)
    case (InitPatch p)
    then show ?thesis
      using shifted_alloc [OF sh] by (simp add: hs alloc_def)
  next
    case (DeformTo i to tc)
    then show ?thesis using modcase by (simp add: hs)
  next
    case (MoveTo i to tc)
    then show ?thesis using modcase by (simp add: hs)
  next
    case (RotateEdges i)
    then show ?thesis using modcase by (simp add: hs)
  next
    case (Discard i)
    then show ?thesis using shifted_delete [OF sh] by (simp add: hs)
  next
    case (SinglePatchMeas i basis oc)
    then show ?thesis using sh by (simp add: hs)
  next
    case (TwoPatchMeas lhs rhs oc)
    then show ?thesis using shifted_no_overlay [OF sh] by (simp add: hs)
  qed
qed

lemma shifted_commitActions:
  "shifted n d hs hs' \<Longrightarrow> shifted n d (commitActions hs acts) (commitActions hs' acts)"
  unfolding commitActions_def by (intro shifted_fold shifted_commitAction)

lemma snd_image_shift:
  "snd ` set (map (\<lambda>(k, a). (k, a + d)) m) = (\<lambda>a. a + (d::nat)) ` snd ` set m"
  by (induction m) auto

lemma shifted_advance:
  assumes "shifted n d hs hs'"
  shows "shifted n d (advanceInterpolations hs t) (advanceInterpolations hs' t)"
proof -
  obtain H s H' s' where hs: "hs = (H, s)" "hs' = (H', s')"
    by (cases hs; cases hs') auto
  note sh = assms [unfolded hs]
  obtain A u where A: "advanceInterpolations (H, s) t = (A, u)"
    by (cases "advanceInterpolations (H, s) t")
  obtain A' u' where A': "advanceInterpolations (H', s') t = (A', u')"
    by (cases "advanceInterpolations (H', s') t")
  have u: "u = s\<lparr>measurementOverlay := map_option (\<lambda>ov. ov\<lparr>progress := t\<rparr>) (measurementOverlay s)\<rparr>"
    using snd_advance [of H s t] by (simp add: A)
  have u': "u' = s'\<lparr>measurementOverlay := map_option (\<lambda>ov. ov\<lparr>progress := t\<rparr>) (measurementOverlay s')\<rparr>"
    using snd_advance [of H' s' t] by (simp add: A')
  have cA: "cells A b = (if b \<in> snd ` set (patches s) then advancePatch t (cells H b) else cells H b)" for b
    using cells_advance [of H s t b] by (simp add: A)
  have cA': "cells A' b = (if b \<in> snd ` set (patches s') then advancePatch t (cells H' b) else cells H' b)" for b
    using cells_advance [of H' s' t b] by (simp add: A')
  have nA: "nxt A = nxt H" and nA': "nxt A' = nxt H'"
    using A A' by (auto simp: advanceInterpolations_def nxt_advance_fold)
  have range: "\<forall>a \<in> snd ` set (patches s). n \<le> a \<and> a < nxt H"
    using sh by (auto simp: shifted_def inRange_def list_all_iff)
  have ps: "patches s' = map (\<lambda>(k, a). (k, a + d)) (patches s)"
    using sh by (simp add: shifted_def)
  have img: "snd ` set (patches s') = (\<lambda>a. a + d) ` snd ` set (patches s)"
    unfolding ps by (rule snd_image_shift)
  have low: "cells A' a = cells A a" if "a < n" for a
  proof -
    have "a \<notin> snd ` set (patches s)" using range that by auto
    moreover have "a \<notin> snd ` set (patches s')" using range that img by auto
    ultimately show ?thesis using sh that by (simp add: cA cA' shifted_def)
  qed
  have high: "cells A' (a + d) = cells A a" if "n \<le> a" and "a < nxt H" for a
  proof -
    have "inj (\<lambda>a. a + d)"
      by (simp add: inj_on_def)
    then have "(a + d \<in> snd ` set (patches s')) = (a \<in> snd ` set (patches s))"
      unfolding img by (rule inj_image_mem_iff)
    moreover have "cells H' (a + d) = cells H a"
      using sh that by (simp add: shifted_def)
    ultimately show ?thesis by (simp add: cA cA')
  qed
  have "shifted n d (A, u) (A', u')"
    using sh low high
    by (auto simp: shifted_def inRange_def nA nA' u u' shiftOverlay_def split: option.splits)
  then show ?thesis
    by (simp add: hs A A')
qed

lemma shifted_snapshot:
  assumes "shifted n d hs hs'"
  shows "snapshot hs = snapshot hs'"
proof -
  obtain H s H' s' where hs: "hs = (H, s)" "hs' = (H', s')"
    by (cases hs; cases hs') auto
  note sh = assms [unfolded hs]
  have range: "\<forall>x \<in> set (patches s). n \<le> snd x \<and> snd x < nxt H"
    using sh by (auto simp: shifted_def inRange_def list_all_iff)
  have cell: "\<forall>a. n \<le> a \<and> a < nxt H \<longrightarrow> cells H' (a + d) = cells H a"
    using sh by (simp add: shifted_def)
  have "map (\<lambda>(k, a). (k, cells H' a)) (patches s') = map (\<lambda>(k, a). (k, cells H a)) (patches s)"
    using sh range cell by (auto simp: shifted_def)
  moreover have "map_option (overlayView H') (measurementOverlay s')
      = map_option (overlayView H) (measurementOverlay s)"
    using sh cell
    by (cases "measurementOverlay s") (auto simp: shifted_def inRange_def overlayView_def shiftOverlay_def)
  ultimately show ?thesis
    by (simp add: hs snapshot_def)
qed

lemma shifted_clonePatches:
  assumes "shifted n d (H, \<lparr>patches = m, measurementOverlay = None\<rparr>)
             (H', \<lparr>patches = m', measurementOverlay = None\<rparr>)"
    and "list_all (\<lambda>(k, a). a < n) l"
  shows "shifted n d
      (case clonePatches l (H, m) of (H1, m1) \<Rightarrow> (H1, \<lparr>patches = m1, measurementOverlay = None\<rparr>))
      (case clonePatches l (H', m') of (H1, m1) \<Rightarrow> (H1, \<lparr>patches = m1, measurementOverlay = None\<rparr>))"
  using assms
proof (induction l arbitrary: H m H' m')
  case Nil
  then show ?case by simp
next
  case (Cons x l)
  obtain k a where x: "x = (k, a)" by (cases x)
  have a: "a < n" using Cons.prems(2) by (simp add: x)
  then have same: "cells H' a = cells H a"
    using Cons.prems(1) by (simp add: shifted_def)
  have "shifted n d
      (\<lparr>cells = (cells H)(nxt H := cells H a), nxt = Suc (nxt H)\<rparr>,
       \<lparr>patches = AList.update k (nxt H) m, measurementOverlay = None\<rparr>)
      (\<lparr>cells = (cells H')(nxt H' := cells H a), nxt = Suc (nxt H')\<rparr>,
       \<lparr>patches = AList.update k (nxt H') m', measurementOverlay = None\<rparr>)"
    using shifted_alloc [OF Cons.prems(1), of "cells H a" k] by simp
  moreover have "list_all (\<lambda>(k, a). a < n) l"
    using Cons.prems(2) by simp
  ultimately show ?case
    using Cons.IH by (simp add: x alloc_def same)
qed

lemma shifted_clone_twice:
  assumes "allocated H s"
  shows "shifted (nxt H) (length (patches s))
      (clearOverlay (cloneRuntimeState (H, s)))
      (clearOverlay (cloneRuntimeState (fst (cloneRuntimeState (H, s)), s)))"
proof -
  obtain H1 m1 where c1: "clonePatches (patches s) (H, []) = (H1, m1)"
    by (cases "clonePatches (patches s) (H, [])")
  have n1: "nxt H1 = nxt H + length (patches s)"
    using nxt_clonePatches [of "patches s" H "[]"] by (simp add: c1)
  have old: "\<forall>a. a < nxt H \<longrightarrow> cells H1 a = cells H a"
    using cells_clonePatches_old [of _ H "patches s" "[]"] by (simp add: c1)
  have base: "shifted (nxt H) (length (patches s))
      (H, \<lparr>patches = [], measurementOverlay = None\<rparr>) (H1, \<lparr>patches = [], measurementOverlay = None\<rparr>)"
    using n1 old by (auto simp: shifted_def inRange_def)
  have src: "list_all (\<lambda>(k, a). a < nxt H) (patches s)"
    using assms by (simp add: allocated_def)
  from shifted_clonePatches [OF base src] show ?thesis
    by (simp add: cloneRuntimeState_def clearOverlay_def c1 split: prod.splits)
qed

lemma prepareTick_clear: "prepareTick (clearOverlay hs) acts = prepareTick hs acts"
  by (simp add: prepareTick_def clearOverlay_idem)

lemma clamp01_1: "clamp01 1 = 1"
  by (simp add: clamp01_def)

lemma clamp01_ge_1: "1 \<le> x \<Longrightarrow> clamp01 x = 1"
  by (auto simp: clamp01_def min_def max_def)

lemma clamp01_full: "0 < t \<Longrightarrow> t \<le> a \<Longrightarrow> clamp01 (a / t) = 1"
  by (intro clamp01_ge_1 one_le_div_double)

section \<open>The step control against one full tick of the clock\<close>




section \<open>What a clone shares with the state it was made from\<close>

text \<open>
  Claim C4 at a concrete input.  The state is the one \<open>prepareTick\<close> gives for the step
  \<open>Z Z measurement\<close> of the demonstration program.  Its clone has new objects (2 and 3)
  in the patch map, but the overlay of the clone still refers to the objects 0 and 1 of
  the state it was cloned from; a commit on that state (here a deformation of \<open>q0\<close>) is
  seen in the snapshot of the clone.
\<close>

theorem clone_shares_overlay_patches:
  "snd (prepareTick (demoHeap, demoState) (actions (steps demoProgram ! 2))) = measuringState
   \<and> patches (snd (cloneRuntimeState (demoHeap, measuringState))) = [(''q0'', 2), (''q1'', 3)]
   \<and> overlayObjects (snd (cloneRuntimeState (demoHeap, measuringState))) = {0, 1}
   \<and> patchObjects (snd (cloneRuntimeState (demoHeap, measuringState))) \<inter> patchObjects measuringState
        = {0, 1}
   \<and> snapshot (fst (commitAction (DeformTo ''q0'' \<lparr>rect_x = dbl 8, rect_y = dbl 7, rect_w = dbl 4, rect_h = dbl 3\<rparr> None)
                      (fst (cloneRuntimeState (demoHeap, measuringState)), measuringState)),
                 snd (cloneRuntimeState (demoHeap, measuringState)))
        \<noteq> snapshot (cloneRuntimeState (demoHeap, measuringState))"
proof -
  have prep: "snd (prepareTick (demoHeap, demoState) (actions (steps demoProgram ! 2))) = measuringState"
    by (simp add: demoProgram_def prepareTick_def clearOverlay_def demoState_def measuringState_def)
  have clone: "cloneRuntimeState (demoHeap, measuringState) =
      (\<lparr>cells = (cells demoHeap)(2 := cells demoHeap 0, 3 := cells demoHeap 1), nxt = 4\<rparr>,
       \<lparr>patches = [(''q0'', 2), (''q1'', 3)], measurementOverlay = measurementOverlay measuringState\<rparr>)"
    by (simp add: cloneRuntimeState_def alloc_def measuringState_def demoState_def demoHeap_def)
  have ov: "measurementOverlay measuringState =
      Some \<lparr>ov_a = 0, aEdge = FaceRight, ov_b = 1, bEdge = FaceLeft,
             outcome = Some OutcomePlus, progress = 0\<rparr>"
    by (simp add: measuringState_def)
  have objs: "overlayObjects (snd (cloneRuntimeState (demoHeap, measuringState))) = {0, 1}"
    unfolding clone by (simp add: ov overlayObjects_def)
  have inter: "patchObjects (snd (cloneRuntimeState (demoHeap, measuringState)))
      \<inter> patchObjects measuringState = {0, 1}"
    unfolding clone by (auto simp: overlayObjects_def patchObjects_def measuringState_def demoState_def)
  have seen: "snapshot (fst (commitAction (DeformTo ''q0'' \<lparr>rect_x = dbl 8, rect_y = dbl 7, rect_w = dbl 4, rect_h = dbl 3\<rparr> None)
                      (fst (cloneRuntimeState (demoHeap, measuringState)), measuringState)),
                 snd (cloneRuntimeState (demoHeap, measuringState)))
        \<noteq> snapshot (cloneRuntimeState (demoHeap, measuringState))"
    unfolding clone
    by (simp add: snapshot_def overlayView_def modify_def measuringState_def demoState_def
        demoHeap_def runtimePatch_def demoQ0_def double_eq_iff)
  show ?thesis
    using prep objs inter seen by (simp add: clone)
qed

section \<open>Stepping at the last step\<close>

text \<open>
  Claim C10.  With the cursor at the last step of a program that has steps, the step
  control succeeds, prepares, advances to 1 and commits the batch of the last step on a
  clone of the runtime state, and leaves the step index where it was.  So does the clock
  callback while playing, in the frame in which the time in the step reaches \<open>tickMs\<close>
  (it prepares the batch too when the frame starts at time 0).
\<close>

theorem last_step_runs_again:
  assumes "steps program \<noteq> []" and "stepIdx c = int (length (steps program)) - 1"
  shows "stepOnce program (H, c) =
      Inr (fst (commitActions (advanceInterpolations
                 (prepareTick (cloneRuntimeState (H, runtime c)) (actions (last (steps program)))) 1)
               (actions (last (steps program)))),
           \<lparr>runtime = snd (commitActions (advanceInterpolations
                 (prepareTick (cloneRuntimeState (H, runtime c)) (actions (last (steps program)))) 1)
               (actions (last (steps program)))),
            stepIdx = stepIdx c, tInStep = 0, playing = playing c\<rparr>)
    \<and> (playing c \<and> 0 < tickMs program \<and> tickMs program \<le> tInStep c + dt \<longrightarrow>
         onTick program dt (H, c) =
           Inr (fst (commitActions (advanceInterpolations
                 (if tInStep c = 0
                  then prepareTick (cloneRuntimeState (fst (cloneRuntimeState (H, runtime c)), runtime c))
                         (actions (last (steps program)))
                  else cloneRuntimeState (H, runtime c)) 1)
               (actions (last (steps program)))),
           \<lparr>runtime = snd (commitActions (advanceInterpolations
                 (if tInStep c = 0
                  then prepareTick (cloneRuntimeState (fst (cloneRuntimeState (H, runtime c)), runtime c))
                         (actions (last (steps program)))
                  else cloneRuntimeState (H, runtime c)) 1)
               (actions (last (steps program)))),
            stepIdx = stepIdx c, tInStep = 0, playing = playing c\<rparr>))"
proof -
  have len: "0 < length (steps program)"
    using assms(1) by simp
  have at: "stepAt program (stepIdx c) = Some (last (steps program))"
    using assms len by (simp add: stepAt_def last_conv_nth nat_diff_distrib')
  have idx: "min (stepIdx c) (int (length (steps program)) - 1) = stepIdx c"
    and nx: "min (stepIdx c + 1) (int (length (steps program)) - 1) = stepIdx c"
    and nx': "min (int (length (steps program)) - 1) (stepIdx c + 1) = stepIdx c"
    using assms(2) by simp_all
  have S: "stepOnce program (H, c) =
      Inr (fst (commitActions (advanceInterpolations
                 (prepareTick (cloneRuntimeState (H, runtime c)) (actions (last (steps program)))) 1)
               (actions (last (steps program)))),
           \<lparr>runtime = snd (commitActions (advanceInterpolations
                 (prepareTick (cloneRuntimeState (H, runtime c)) (actions (last (steps program)))) 1)
               (actions (last (steps program)))),
            stepIdx = stepIdx c, tInStep = 0, playing = playing c\<rparr>)"
    by (simp add: stepOnce_def Let_def idx at nx split_beta)
  have T: "onTick program dt (H, c) =
           Inr (fst (commitActions (advanceInterpolations
                 (if tInStep c = 0
                  then prepareTick (cloneRuntimeState (fst (cloneRuntimeState (H, runtime c)), runtime c))
                         (actions (last (steps program)))
                  else cloneRuntimeState (H, runtime c)) 1)
               (actions (last (steps program)))),
           \<lparr>runtime = snd (commitActions (advanceInterpolations
                 (if tInStep c = 0
                  then prepareTick (cloneRuntimeState (fst (cloneRuntimeState (H, runtime c)), runtime c))
                         (actions (last (steps program)))
                  else cloneRuntimeState (H, runtime c)) 1)
               (actions (last (steps program)))),
            stepIdx = stepIdx c, tInStep = 0, playing = playing c\<rparr>)"
    if "playing c" and "0 < tickMs program" and "tickMs program \<le> tInStep c + dt"
  proof -
    have t01: "clamp01 ((tInStep c + dt) / tickMs program) = 1"
      using that(2,3) by (rule clamp01_full)
    then have t01': "tInStep c = 0 \<Longrightarrow> clamp01 (dt / tickMs program) = 1"
      by simp
    have reach: "tInStep c = 0 \<Longrightarrow> tickMs program \<le> dt"
      using that(3) by simp
    show ?thesis
      using that len by (simp add: onTick_def Let_def at t01 t01' reach nx' split_beta)
  qed
  show ?thesis
    using S T by blast
qed

text \<open>
  The program whose last step rotates \<open>q0\<close>, with the cursor at that step.  Paused, the
  step control rotates the boundary kinds of \<open>q0\<close> (top Z, right X, bottom Z, left X
  becomes top X, right Z, bottom X, left Z) and the step index stays 1; pressed a second
  time it rotates them again.  Playing, a frame of 700 ms of the clock does what the first
  press does.
\<close>

theorem last_step_runs_again_witness:
  "observe (stepOnce rotateProgram (demoHeap, rotatePlayer False))
     = Inr (([(''q0'', (runtimePatch demoQ0)\<lparr>edges :=
                 \<lparr>edge_top = EdgeX, edge_right = EdgeZ, edge_bottom = EdgeX, edge_left = EdgeZ\<rparr>\<rparr>),
              (''q1'', runtimePatch demoQ1)], None), 1, 0)
   \<and> observe (stepTimes 2 rotateProgram (demoHeap, rotatePlayer False))
     = Inr (([(''q0'', (runtimePatch demoQ0)\<lparr>edges :=
                 \<lparr>edge_top = EdgeZ, edge_right = EdgeX, edge_bottom = EdgeZ, edge_left = EdgeX\<rparr>\<rparr>),
              (''q1'', runtimePatch demoQ1)], None), 1, 0)
   \<and> observe (onTick rotateProgram (dbl 700) (demoHeap, rotatePlayer True))
     = observe (stepOnce rotateProgram (demoHeap, rotatePlayer False))"
proof -
  have l: "actions (last (steps rotateProgram)) = [RotateEdges ''q0'']"
    by (simp add: rotateProgram_def)
  have h: "steps rotateProgram \<noteq> []"
    "stepIdx (rotatePlayer pl) = int (length (steps rotateProgram)) - 1" for pl
    by (simp_all add: rotateProgram_def rotatePlayer_def)
  have t: "playing (rotatePlayer True) \<and> 0 < tickMs rotateProgram
      \<and> tickMs rotateProgram \<le> tInStep (rotatePlayer True) + dbl 700"
    by (simp add: rotateProgram_def rotatePlayer_def less_double_iff)
  have step: "observe (stepOnce rotateProgram (demoHeap, rotatePlayer False))
     = Inr (([(''q0'', (runtimePatch demoQ0)\<lparr>edges :=
                 \<lparr>edge_top = EdgeX, edge_right = EdgeZ, edge_bottom = EdgeX, edge_left = EdgeZ\<rparr>\<rparr>),
              (''q1'', runtimePatch demoQ1)], None), 1, 0)"
    using last_step_runs_again [OF h, of demoHeap False] unfolding l
    by (simp add: cloneRuntimeState_def alloc_def prepareTick_def clearOverlay_def
        advanceInterpolations_def modify_def advancePatch_def commitActions_def observe_def
        snapshot_def demoState_def demoHeap_def runtimePatch_def demoQ0_def demoQ1_def
        demoEdges_def rotatePlayer_def)
  have tick: "observe (onTick rotateProgram (dbl 700) (demoHeap, rotatePlayer True))
     = Inr (([(''q0'', (runtimePatch demoQ0)\<lparr>edges :=
                 \<lparr>edge_top = EdgeX, edge_right = EdgeZ, edge_bottom = EdgeX, edge_left = EdgeZ\<rparr>\<rparr>),
              (''q1'', runtimePatch demoQ1)], None), 1, 0)"
    using last_step_runs_again [OF h, of demoHeap True "dbl 700"] t unfolding l
    by (simp add: cloneRuntimeState_def alloc_def prepareTick_def clearOverlay_def
        advanceInterpolations_def modify_def advancePatch_def commitActions_def observe_def
        snapshot_def demoState_def demoHeap_def runtimePatch_def demoQ0_def demoQ1_def
        demoEdges_def rotatePlayer_def)
  have twice: "observe (stepTimes 2 rotateProgram (demoHeap, rotatePlayer False))
     = Inr (([(''q0'', (runtimePatch demoQ0)\<lparr>edges :=
                 \<lparr>edge_top = EdgeZ, edge_right = EdgeX, edge_bottom = EdgeZ, edge_left = EdgeX\<rparr>\<rparr>),
              (''q1'', runtimePatch demoQ1)], None), 1, 0)"
    by (simp add: numeral_eq_Suc stepOnce_def stepAt_def rotateProgram_def cloneRuntimeState_def
        alloc_def prepareTick_def clearOverlay_def
        advanceInterpolations_def modify_def advancePatch_def commitActions_def observe_def
        snapshot_def demoState_def demoHeap_def runtimePatch_def demoQ0_def demoQ1_def
        demoEdges_def rotatePlayer_def)
  show ?thesis
    using step tick twice by simp
qed

section \<open>Further properties of the engine\<close>

lemma advancePatch_overwrites: "advancePatch t2 (advancePatch t1 p) = advancePatch t2 p"
  by (simp add: advancePatch_def split: option.splits)

lemma advance_twice:
  "advanceInterpolations (advanceInterpolations hs t1) t2 = advanceInterpolations hs t2"
proof -
  obtain H s where hs: "hs = (H, s)" by (cases hs)
  obtain A u where A: "advanceInterpolations (H, s) t1 = (A, u)"
    by (cases "advanceInterpolations (H, s) t1")
  have u: "u = s\<lparr>measurementOverlay := map_option (\<lambda>ov. ov\<lparr>progress := t1\<rparr>) (measurementOverlay s)\<rparr>"
    using snd_advance [of H s t1] by (simp add: A)
  have cA: "cells A b = (if b \<in> snd ` set (patches s) then advancePatch t1 (cells H b) else cells H b)" for b
    using cells_advance [of H s t1 b] by (simp add: A)
  have nA: "nxt A = nxt H"
    using A by (auto simp: advanceInterpolations_def nxt_advance_fold)
  have st: "snd (advanceInterpolations (A, u) t2) = snd (advanceInterpolations (H, s) t2)"
    by (simp add: snd_advance u option.map_comp comp_def)
  have "cells (fst (advanceInterpolations (A, u) t2)) b
      = cells (fst (advanceInterpolations (H, s) t2)) b" for b
    by (simp add: cells_advance cA u advancePatch_overwrites)
  moreover have "nxt (fst (advanceInterpolations (A, u) t2)) = nxt (fst (advanceInterpolations (H, s) t2))"
    by (simp add: advanceInterpolations_def nxt_advance_fold nA)
  ultimately have "fst (advanceInterpolations (A, u) t2) = fst (advanceInterpolations (H, s) t2)"
    by (intro Heap.equality) (auto simp: fun_eq_iff)
  then show ?thesis
    using st by (simp add: hs A prod_eq_iff)
qed

text \<open>
  An advance is a function of animate-from, animate-to and the progress only, never of an
  earlier interpolation: advancing to \<open>t1\<close> and then to \<open>t2\<close> gives the store and state of
  advancing to \<open>t2\<close> at once.  In particular advancing twice to the same progress is
  advancing once.
\<close>

theorem advance_forgets_earlier_advance:
  "advanceInterpolations (advanceInterpolations hs t1) t2 = advanceInterpolations hs t2"
  by (rule advance_twice)

text \<open>
  Reset gives the empty patch map with no overlay, step index 0, time 0 in the step and
  the paused state, whatever the state before.
\<close>

theorem reset_is_initial:
  "snd (reset (H, c)) =
     \<lparr>runtime = \<lparr>patches = [], measurementOverlay = None\<rparr>, stepIdx = 0, tInStep = 0, playing = False\<rparr>"
  by (simp add: reset_def)

text \<open>
  On a program without steps the step control throws (it reads \<^verbatim>\<open>program.steps[-1].actions\<close>),
  while the clock callback returns and leaves the cursor alone.
\<close>

theorem stepOnce_without_steps_throws:
  "steps program = [] \<Longrightarrow>
     stepOnce program (H, c) = Inl TypeError
     \<and> (\<exists>H' rt. onTick program dt (H, c) =
           Inr (H', \<lparr>runtime = rt, stepIdx = stepIdx c, tInStep = tInStep c, playing = playing c\<rparr>))"
  by (simp add: stepOnce_def stepAt_def onTick_def Let_def split_beta)

theorem stepOnce_without_steps_throws_witness:
  "stepOnce (demoProgram\<lparr>steps := []\<rparr>) (demoHeap, rotatePlayer True) = Inl TypeError"
  using stepOnce_without_steps_throws [of "demoProgram\<lparr>steps := []\<rparr>" demoHeap "rotatePlayer True" 0]
  by simp

section \<open>The patch map of a clone\<close>

lemma update_new_key: "k \<notin> fst ` set m \<Longrightarrow> AList.update k v m = m @ [(k, v)]"
  by (induction m) auto

lemma clonePatches_copies:
  assumes "distinct (map fst m @ map fst l)"
    and "list_all (\<lambda>(k, a). a < nxt H) l" and "list_all (\<lambda>(k, a). a < nxt H) m"
  shows "map (\<lambda>(k, a). (k, cells (fst (clonePatches l (H, m))) a)) (snd (clonePatches l (H, m)))
           = map (\<lambda>(k, a). (k, cells H a)) (m @ l)
    \<and> snd ` set (snd (clonePatches l (H, m))) \<subseteq> snd ` set m \<union> {nxt H ..< nxt H + length l}"
  using assms
proof (induction l arbitrary: H m)
  case Nil
  then show ?case by simp
next
  case (Cons x l)
  obtain k a where x: "x = (k, a)" by (cases x)
  let ?H = "\<lparr>cells = (cells H)(nxt H := cells H a), nxt = Suc (nxt H)\<rparr>"
  let ?m = "m @ [(k, nxt H)]"
  have fresh: "k \<notin> fst ` set m"
    using Cons.prems(1) by (auto simp: x)
  have step: "clonePatches (x # l) (H, m) = clonePatches l (?H, ?m)"
    by (simp add: x alloc_def update_new_key [OF fresh])
  have d: "distinct (map fst ?m @ map fst l)"
    using Cons.prems(1) by (auto simp: x)
  have l: "list_all (\<lambda>(k, a). a < nxt ?H) l"
    using Cons.prems(2) by (auto simp: list_all_iff)
  have m: "list_all (\<lambda>(k, a). a < nxt ?H) ?m"
    using Cons.prems(3) by (auto simp: list_all_iff)
  note IH = Cons.IH [OF d l m]
  have a: "a < nxt H"
    using Cons.prems(2) by (simp add: x)
  have old: "map (\<lambda>(k, a). (k, cells ?H a)) (?m @ l) = map (\<lambda>(k, a). (k, cells H a)) (m @ x # l)"
    using Cons.prems(2,3) a by (auto simp: x list_all_iff)
  have sub: "snd ` set ?m \<union> {nxt ?H ..< nxt ?H + length l}
      \<subseteq> snd ` set m \<union> {nxt H ..< nxt H + length (x # l)}"
    by auto
  show ?case
    unfolding step using IH old sub by auto
qed

text \<open>
  The patch map of a clone, for a state whose map has each key once and whose patches
  have been allocated: the same identifiers in the same order, behind each a new object
  (none of them an object that existed before) with the contents of the original, and no
  object that existed before has changed.  (The overlay is another matter: its two
  references are copied as they are.)
\<close>

theorem clone_copies_patch_map:
  assumes "distinct (map fst (patches s))" and "allocated H s"
  shows "fst (snapshot (cloneRuntimeState (H, s))) = fst (snapshot (H, s))
    \<and> (\<forall>a \<in> snd ` set (patches (snd (cloneRuntimeState (H, s)))). nxt H \<le> a)
    \<and> (\<forall>a. a < nxt H \<longrightarrow> cells (fst (cloneRuntimeState (H, s))) a = cells H a)
    \<and> measurementOverlay (snd (cloneRuntimeState (H, s))) = measurementOverlay s"
proof -
  have c: "cloneRuntimeState (H, s) =
      (fst (clonePatches (patches s) (H, [])),
       \<lparr>patches = snd (clonePatches (patches s) (H, [])), measurementOverlay = measurementOverlay s\<rparr>)"
    by (simp add: cloneRuntimeState_def split_beta split: option.splits)
  have "map (\<lambda>(k, a). (k, cells (fst (clonePatches (patches s) (H, []))) a))
          (snd (clonePatches (patches s) (H, [])))
        = map (\<lambda>(k, a). (k, cells H a)) (patches s)
    \<and> snd ` set (snd (clonePatches (patches s) (H, [])))
        \<subseteq> {nxt H ..< nxt H + length (patches s)}"
    using clonePatches_copies [of "[]" "patches s" H] assms by (simp add: allocated_def)
  then show ?thesis
    unfolding c by (auto simp: snapshot_def cells_clonePatches_old)
qed

theorem clone_copies_patch_map_witness:
  "fst (snapshot (cloneRuntimeState (demoHeap, measuringState)))
     = [(''q0'', runtimePatch demoQ0), (''q1'', runtimePatch demoQ1)]"
proof -
  have h: "distinct (map fst (patches measuringState))" "allocated demoHeap measuringState"
    by (simp_all add: measuringState_def demoState_def allocated_def demoHeap_def)
  show ?thesis
    using clone_copies_patch_map [OF h]
    by (simp add: snapshot_def measuringState_def demoState_def demoHeap_def)
qed

section \<open>The demonstration program, step by step\<close>

lemma demo_after_init:
  "stepOnce demoProgram (initialHeap, initialPlayer) =
     Inr (\<lparr>cells = (\<lambda>a. blankPatch)(0 := runtimePatch demoQ0, 1 := runtimePatch demoQ1), nxt = 2\<rparr>,
          \<lparr>runtime = demoState, stepIdx = 1, tInStep = 0, playing = False\<rparr>)"
  by (simp add: engine_defs demoProgram_def initialHeap_def initialPlayer_def demoState_def
      demoQ0_def demoQ1_def)

text \<open>
  The end-to-end scenarios of the specification, with the step control pressed from the
  start.  After two steps (\<open>init\<close>, \<open>approach\<close>) the rectangles are exactly \<open>(8, 7, 4, 3)\<close> and
  \<open>(14, 7, 4, 3)\<close>; the third step (\<open>Z Z measurement\<close>) leaves no overlay and changes no
  rectangle and no boundary kind; after the fifth (\<open>rotate edges\<close>) the boundary kinds are
  top X, right Z, bottom X, left Z, on the initial rectangles again.
\<close>

theorem demo_program_scenarios:
  "observe (stepTimes 2 demoProgram (initialHeap, initialPlayer))
     = Inr (([(''q0'', (runtimePatch demoQ0)\<lparr>rect := \<lparr>rect_x = dbl 8, rect_y = dbl 7, rect_w = dbl 4, rect_h = dbl 3\<rparr>\<rparr>),
              (''q1'', (runtimePatch demoQ1)\<lparr>rect := \<lparr>rect_x = dbl 14, rect_y = dbl 7, rect_w = dbl 4, rect_h = dbl 3\<rparr>\<rparr>)],
             None), 2, 0)
   \<and> observe (stepTimes 3 demoProgram (initialHeap, initialPlayer))
     = Inr (([(''q0'', (runtimePatch demoQ0)\<lparr>rect := \<lparr>rect_x = dbl 8, rect_y = dbl 7, rect_w = dbl 4, rect_h = dbl 3\<rparr>\<rparr>),
              (''q1'', (runtimePatch demoQ1)\<lparr>rect := \<lparr>rect_x = dbl 14, rect_y = dbl 7, rect_w = dbl 4, rect_h = dbl 3\<rparr>\<rparr>)],
             None), 3, 0)
   \<and> observe (stepTimes 5 demoProgram (initialHeap, initialPlayer))
     = Inr (([(''q0'', (runtimePatch demoQ0)\<lparr>edges :=
                 \<lparr>edge_top = EdgeX, edge_right = EdgeZ, edge_bottom = EdgeX, edge_left = EdgeZ\<rparr>\<rparr>),
              (''q1'', (runtimePatch demoQ1)\<lparr>edges :=
                 \<lparr>edge_top = EdgeX, edge_right = EdgeZ, edge_bottom = EdgeX, edge_left = EdgeZ\<rparr>\<rparr>)],
             None), 5, 0)"
  by (simp add: numeral_eq_Suc engine_defs demoProgram_def initialHeap_def initialPlayer_def
      observe_def snapshot_def runtimePatch_def demoQ0_def demoQ1_def demoEdges_def)

section \<open>A tick spread over several frames\<close>

lemma clonePatches_fresh:
  assumes "distinct (map fst m @ map fst l)" and "list_all (\<lambda>(k, a). a < nxt H) l"
  shows "snd (clonePatches l (H, m)) = m @ zip (map fst l) [nxt H ..< nxt H + length l]
    \<and> (\<forall>i < length l. cells (fst (clonePatches l (H, m))) (nxt H + i) = cells H (snd (l ! i)))"
  using assms
proof (induction l arbitrary: H m)
  case Nil
  then show ?case by simp
next
  case (Cons x l)
  obtain k a where x: "x = (k, a)" by (cases x)
  let ?H = "\<lparr>cells = (cells H)(nxt H := cells H a), nxt = Suc (nxt H)\<rparr>"
  let ?m = "m @ [(k, nxt H)]"
  have fresh: "k \<notin> fst ` set m"
    using Cons.prems(1) by (auto simp: x)
  have step: "clonePatches (x # l) (H, m) = clonePatches l (?H, ?m)"
    by (simp add: x alloc_def update_new_key [OF fresh])
  have d: "distinct (map fst ?m @ map fst l)"
    using Cons.prems(1) by (auto simp: x)
  have l: "list_all (\<lambda>(k, a). a < nxt ?H) l"
    using Cons.prems(2) by (auto simp: list_all_iff)
  note IH = Cons.IH [OF d l]
  have upt: "[nxt H ..< nxt H + length (x # l)] = nxt H # [nxt ?H ..< nxt ?H + length l]"
    by (simp add: upt_conv_Cons del: upt_Suc)
  have maps: "snd (clonePatches (x # l) (H, m))
      = m @ zip (map fst (x # l)) [nxt H ..< nxt H + length (x # l)]"
    unfolding step upt using IH by (simp add: x del: upt_Suc)
  have cell: "cells (fst (clonePatches (x # l) (H, m))) (nxt H + i) = cells H (snd ((x # l) ! i))"
    if "i < length (x # l)" for i
  proof (cases i)
    case 0
    have "cells (fst (clonePatches l (?H, ?m))) (nxt H) = cells ?H (nxt H)"
      by (rule cells_clonePatches_old) simp
    then show ?thesis
      unfolding step by (simp add: 0 x)
  next
    case (Suc j)
    have j: "j < length l" using that Suc by simp
    have "snd (l ! j) < nxt H"
      using Cons.prems(2) j by (auto simp: list_all_length split_beta)
    moreover have "cells (fst (clonePatches l (?H, ?m))) (nxt ?H + j) = cells ?H (snd (l ! j))"
      using IH j by blast
    ultimately show ?thesis
      unfolding step by (simp add: Suc)
  qed
  show ?case
    using maps cell by blast
qed

lemma clone_clearOverlay:
  "cloneRuntimeState (clearOverlay hs) = clearOverlay (cloneRuntimeState hs)"
  by (cases hs) (simp add: cloneRuntimeState_def clearOverlay_def split_beta)

lemma advance_clearOverlay:
  "advanceInterpolations (clearOverlay hs) t = clearOverlay (advanceInterpolations hs t)"
  by (cases hs) (simp add: advanceInterpolations_def clearOverlay_def)

lemma commitAction_clearOverlay:
  "commitAction act (clearOverlay hs) = clearOverlay (commitAction act hs)"
  by (cases act; cases hs) (simp_all add: clearOverlay_def alloc_def split: option.splits)

lemma commitActions_clearOverlay:
  "commitActions (clearOverlay hs) acts = clearOverlay (commitActions hs acts)"
  unfolding commitActions_def
  by (induction acts arbitrary: hs) (simp_all add: commitAction_clearOverlay)

lemma clearOverlay_none: "measurementOverlay (snd hs) = None \<Longrightarrow> clearOverlay hs = hs"
  by (cases hs) (simp add: clearOverlay_def)

lemma overlay_commitAction:
  "measurementOverlay (snd (commitAction act hs)) =
     (if isTwoPatchMeas act then None else measurementOverlay (snd hs))"
  by (cases act; cases hs) (simp_all add: alloc_def split: option.splits)

lemma overlay_commitActions:
  "measurementOverlay (snd (commitActions hs acts)) =
     (if list_ex isTwoPatchMeas acts then None else measurementOverlay (snd hs))"
  unfolding commitActions_def
  by (induction acts arbitrary: hs) (simp_all add: overlay_commitAction)

lemma overlayOf_TwoPatchMeas: "overlayOf m act = Some ov \<Longrightarrow> isTwoPatchMeas act"
  by (cases act) simp_all

lemma lastMeasOverlay_TwoPatchMeas:
  assumes "lastMeasOverlay m acts \<noteq> None"
  shows "list_ex isTwoPatchMeas acts"
proof -
  have "filter (\<lambda>act. overlayOf m act \<noteq> None) acts \<noteq> []"
    using assms by (auto simp: lastMeasOverlay_alt)
  then obtain act where "act \<in> set acts" and "overlayOf m act \<noteq> None"
    by (auto simp: filter_empty_conv)
  then show ?thesis
    by (auto simp: list_ex_iff dest: overlayOf_TwoPatchMeas)
qed

lemma nxt_prepareAction: "nxt (fst (prepareAction act hs)) = nxt (fst hs)"
  by (cases act; cases hs) (simp_all add: nxt_modify split: option.splits)

lemma nxt_prepareTick: "nxt (fst (prepareTick hs acts)) = nxt (fst hs)"
proof -
  have "nxt (fst (fold prepareAction acts x)) = nxt (fst x)" for x
    by (induction acts arbitrary: x) (simp_all add: nxt_prepareAction)
  then show ?thesis
    by (cases hs) (simp add: prepareTick_def clearOverlay_def)
qed

lemma nxt_advance: "nxt (fst (advanceInterpolations hs t)) = nxt (fst hs)"
  by (cases hs) (simp add: advanceInterpolations_def nxt_advance_fold)

lemma refShape_prepared:
  assumes "distinct (map fst (patches s))" and "allocated H s"
  shows "refShape (nxt H) (map fst (patches s)) (prepareTick (cloneRuntimeState (H, s)) acts)"
proof -
  have c: "cloneRuntimeState (H, s) =
      (fst (clonePatches (patches s) (H, [])),
       \<lparr>patches = snd (clonePatches (patches s) (H, [])), measurementOverlay = measurementOverlay s\<rparr>)"
    by (simp add: cloneRuntimeState_def split_beta split: option.splits)
  have "snd (clonePatches (patches s) (H, []))
      = zip (map fst (patches s)) [nxt H ..< nxt H + length (patches s)]"
    using clonePatches_fresh [of "[]" "patches s" H] assms by (simp add: allocated_def)
  then show ?thesis
    using assms(1)
    by (simp add: refShape_def patches_prepareTick nxt_prepareTick c nxt_clonePatches)
qed

lemma refShape_advance_clear:
  "refShape n ks P \<Longrightarrow> refShape n ks (clearOverlay (advanceInterpolations P t))"
  by (cases "advanceInterpolations P t")
     (use patches_advance [of P t] nxt_advance [of P t] in \<open>simp add: refShape_def clearOverlay_def\<close>)

lemma shift_zip_upt:
  "map (\<lambda>(k, a). (k, a + d)) (zip ks [n ..< n + length ks]) = zip ks [n + d ..< n + d + length ks]"
  by (rule nth_equalityI) auto

lemma shifted_clone_again:
  assumes sh: "shifted n d (H, s) (H', s')" and none: "measurementOverlay s = None"
    and shape: "refShape n ks (H, s)"
  shows "shifted n (nxt H' - n) (H, s) (cloneRuntimeState (H', s'))"
proof -
  let ?L = "length ks"
  have ps: "patches s = zip ks [n ..< n + ?L]" and dk: "distinct ks" and nH: "nxt H = n + ?L"
    using shape by (simp_all add: refShape_def)
  have nH': "nxt H' = n + d + ?L"
    using sh nH by (simp add: shifted_def)
  have ps0: "patches s' = map (\<lambda>(k, a). (k, a + d)) (patches s)"
    using sh by (simp add: shifted_def)
  have ps': "patches s' = zip ks [n + d ..< n + d + ?L]"
    unfolding ps0 ps by (rule shift_zip_upt)
  have none': "measurementOverlay s' = None"
    using sh none by (simp add: shifted_def)
  have keys: "map fst (patches s') = ks" and len: "length (patches s') = ?L"
    by (simp_all add: ps')
  have alloc: "list_all (\<lambda>(k, a). a < nxt H') (patches s')"
    unfolding ps' nH' by (auto simp: list_all_iff dest!: set_zip_rightD)
  define C where "C = clonePatches (patches s') (H', [])"
  have dist: "distinct (map fst [] @ map fst (patches s'))"
    using dk by (simp add: keys)
  have fresh1: "snd C = zip ks [nxt H' ..< nxt H' + ?L]"
    using clonePatches_fresh [OF dist alloc] by (simp add: C_def keys len)
  have fresh2: "cells (fst C) (nxt H' + i) = cells H' (snd (patches s' ! i))" if "i < ?L" for i
    using clonePatches_fresh [OF dist alloc] that by (simp add: C_def len)
  have c: "cloneRuntimeState (H', s') = (fst C, \<lparr>patches = snd C, measurementOverlay = None\<rparr>)"
    by (simp add: cloneRuntimeState_def split_beta none' C_def)
  have D: "nxt H' - n = d + ?L"
    using nH' by simp
  have nC: "nxt (fst C) = nxt H + (d + ?L)"
    using nxt_clonePatches [of "patches s'" H' "[]"] by (simp add: len nH nH' C_def)
  have "map (\<lambda>(k, a). (k, a + (d + ?L))) (patches s) = zip ks [n + (d + ?L) ..< n + (d + ?L) + ?L]"
    unfolding ps by (rule shift_zip_upt)
  moreover have "n + (d + ?L) = nxt H'"
    by (simp add: nH')
  ultimately have maps: "snd C = map (\<lambda>(k, a). (k, a + (d + ?L))) (patches s)"
    by (simp only: fresh1)
  have low: "cells (fst C) a = cells H a" if "a < n" for a
  proof -
    have "a < nxt H'" using that nH' by simp
    then have "cells (fst C) a = cells H' a"
      unfolding C_def by (rule cells_clonePatches_old)
    then show ?thesis
      using sh that by (simp add: shifted_def)
  qed
  have high: "cells (fst C) (a + (d + ?L)) = cells H a" if "n \<le> a" and "a < nxt H" for a
  proof -
    define i where "i = a - n"
    have i: "a = n + i" and iL: "i < ?L"
      using that nH by (simp_all add: i_def)
    have "snd (patches s' ! i) = a + d"
      using iL by (simp add: ps' i)
    then have "cells (fst C) (nxt H' + i) = cells H' (a + d)"
      using fresh2 [OF iL] by simp
    moreover have "cells H' (a + d) = cells H a"
      using sh that by (simp add: shifted_def)
    moreover have "a + (d + ?L) = nxt H' + i"
      by (simp add: i nH')
    ultimately show ?thesis by simp
  qed
  have rng: "inRange n H s" and nn: "n \<le> nxt H"
    using sh by (simp_all add: shifted_def)
  have "shifted n (d + ?L) (H, s) (fst C, \<lparr>patches = snd C, measurementOverlay = None\<rparr>)"
    unfolding shifted_def using nC maps low high none rng nn by simp
  then show ?thesis
    by (simp add: c D)
qed

lemma overlay_prepareTick_TwoPatchMeas:
  assumes "measurementOverlay (snd (prepareTick hs acts)) \<noteq> None"
  shows "list_ex isTwoPatchMeas acts"
proof -
  obtain H s where hs: "hs = (H, s)" by (cases hs)
  have "measurementOverlay (snd (prepareTick hs acts)) = lastMeasOverlay (patches s) acts"
    using overlay_prepare_fold [of acts H "s\<lparr>measurementOverlay := None\<rparr>"]
    by (simp add: hs prepareTick_def clearOverlay_def split: option.splits)
  then show ?thesis
    using assms by (auto intro: lastMeasOverlay_TwoPatchMeas)
qed

lemma overlay_advance_none:
  "(measurementOverlay (snd (advanceInterpolations hs t)) = None) = (measurementOverlay (snd hs) = None)"
  by (cases hs) (simp add: snd_advance)

lemma overlay_clone: "measurementOverlay (snd (cloneRuntimeState hs)) = measurementOverlay (snd hs)"
  by (cases hs) (simp add: cloneRuntimeState_def split_beta split: option.splits)

lemma shifted_prepared_twice:
  assumes "allocated H s"
  shows "shifted (nxt H) (length (patches s))
      (prepareTick (cloneRuntimeState (H, s)) acts)
      (prepareTick (cloneRuntimeState (fst (cloneRuntimeState (H, s)), s)) acts)"
proof -
  have "shifted (nxt H) (length (patches s))
      (prepareTick (clearOverlay (cloneRuntimeState (H, s))) acts)
      (prepareTick (clearOverlay (cloneRuntimeState (fst (cloneRuntimeState (H, s)), s))) acts)"
    by (intro shifted_prepareTick shifted_clone_twice assms)
  then show ?thesis
    by (simp only: prepareTick_clear)
qed

lemma final_snapshots:
  assumes sh: "shifted n d (clearOverlay X) (clearOverlay Y)"
    and ovX: "measurementOverlay (snd X) \<noteq> None \<longrightarrow> list_ex isTwoPatchMeas acts"
    and ovY: "measurementOverlay (snd Y) \<noteq> None \<longrightarrow> list_ex isTwoPatchMeas acts"
  shows "snapshot (commitActions Y acts) = snapshot (commitActions X acts)"
proof -
  have "shifted n d (commitActions (clearOverlay X) acts) (commitActions (clearOverlay Y) acts)"
    using sh by (rule shifted_commitActions)
  then have "snapshot (clearOverlay (commitActions X acts)) = snapshot (clearOverlay (commitActions Y acts))"
    unfolding commitActions_clearOverlay by (rule shifted_snapshot)
  moreover have "measurementOverlay (snd (commitActions X acts)) = None"
    using ovX by (auto simp: overlay_commitActions)
  moreover have "measurementOverlay (snd (commitActions Y acts)) = None"
    using ovY by (auto simp: overlay_commitActions)
  ultimately show ?thesis
    by (simp add: clearOverlay_none)
qed

lemma midTick_next:
  assumes mid: "midTick i acts n P acc (H, c)" and shape: "refShape n ks P"
  shows "\<exists>d. shifted n d (clearOverlay (advanceInterpolations P t))
            (clearOverlay (advanceInterpolations (cloneRuntimeState (H, runtime c)) t))"
proof -
  obtain d t0 where sh: "shifted n d (clearOverlay (advanceInterpolations P t0)) (clearOverlay (H, runtime c))"
    using mid by (auto simp: midTick_def)
  obtain HX sX where X: "clearOverlay (advanceInterpolations P t0) = (HX, sX)"
    by (cases "clearOverlay (advanceInterpolations P t0)")
  have noneX: "measurementOverlay sX = None"
    using X by (cases "advanceInterpolations P t0") (auto simp: clearOverlay_def)
  have shapeX: "refShape n ks (HX, sX)"
    using refShape_advance_clear [OF shape, of t0] by (simp add: X)
  obtain HY sY where Y: "clearOverlay (H, runtime c) = (HY, sY)"
    by (cases "clearOverlay (H, runtime c)")
  have "shifted n (nxt HY - n) (HX, sX) (cloneRuntimeState (HY, sY))"
    using sh noneX shapeX unfolding X Y by (rule shifted_clone_again)
  then have "shifted n (nxt HY - n) (clearOverlay (advanceInterpolations P t0))
      (clearOverlay (cloneRuntimeState (H, runtime c)))"
    by (simp add: X flip: Y clone_clearOverlay)
  then have "shifted n (nxt HY - n)
      (advanceInterpolations (clearOverlay (advanceInterpolations P t0)) t)
      (advanceInterpolations (clearOverlay (cloneRuntimeState (H, runtime c))) t)"
    by (rule shifted_advance)
  then have "shifted n (nxt HY - n) (clearOverlay (advanceInterpolations P t))
      (clearOverlay (advanceInterpolations (cloneRuntimeState (H, runtime c)) t))"
    by (simp add: advance_clearOverlay advance_twice)
  then show ?thesis ..
qed

lemma frame_mid:
  assumes mid: "midTick i acts n P acc (H, c)" and shape: "refShape n ks P"
    and steps: "steps program \<noteq> []" and acc: "acc \<noteq> 0" and less: "acc + dt < tickMs program"
  shows "\<exists>hc'. onTick program dt (H, c) = Inr hc' \<and> midTick i acts n P (acc + dt) hc'"
proof -
  let ?t = "clamp01 ((acc + dt) / tickMs program)"
  let ?A = "advanceInterpolations (cloneRuntimeState (H, runtime c)) ?t"
  have c: "playing c" "stepIdx c = i" "tInStep c = acc"
    and ov: "measurementOverlay (runtime c) \<noteq> None \<longrightarrow> list_ex isTwoPatchMeas acts"
    using mid by (auto simp: midTick_def)
  have run: "onTick program dt (H, c) =
      Inr (fst ?A, \<lparr>runtime = snd ?A, stepIdx = i, tInStep = acc + dt, playing = True\<rparr>)"
    using steps acc less [THEN not_le [THEN iffD2]] by (simp add: onTick_def Let_def split_beta c)
  obtain d where "shifted n d (clearOverlay (advanceInterpolations P ?t)) (clearOverlay ?A)"
    using midTick_next [OF mid shape] by blast
  moreover have "measurementOverlay (snd ?A) \<noteq> None \<longrightarrow> list_ex isTwoPatchMeas acts"
    using ov by (simp add: overlay_advance_none overlay_clone)
  ultimately have "midTick i acts n P (acc + dt)
      (fst ?A, \<lparr>runtime = snd ?A, stepIdx = i, tInStep = acc + dt, playing = True\<rparr>)"
    by (auto simp: midTick_def)
  then show ?thesis
    using run by blast
qed

lemma frame_final:
  assumes mid: "midTick i acts n P acc (H, c)" and shape: "refShape n ks P"
    and at: "stepAt program i = Some st" and acts: "acts = actions st"
    and acc: "acc \<noteq> 0" and pos: "0 < tickMs program" and reach: "tickMs program \<le> acc + dt"
    and ovP: "measurementOverlay (snd P) \<noteq> None \<longrightarrow> list_ex isTwoPatchMeas acts"
  shows "observe (onTick program dt (H, c)) =
      Inr (snapshot (commitActions (advanceInterpolations P 1) acts),
           min (int (length (steps program)) - 1) (i + 1), 0)"
proof -
  let ?A = "advanceInterpolations (cloneRuntimeState (H, runtime c)) 1"
  let ?F = "commitActions ?A acts"
  have c: "playing c" "stepIdx c = i" "tInStep c = acc"
    and ov: "measurementOverlay (runtime c) \<noteq> None \<longrightarrow> list_ex isTwoPatchMeas acts"
    using mid by (auto simp: midTick_def)
  have steps: "steps program \<noteq> []"
    using at by (auto simp: stepAt_def split: if_splits)
  have t: "clamp01 ((acc + dt) / tickMs program) = 1"
    using pos reach by (rule clamp01_full)
  have run: "onTick program dt (H, c) =
      Inr (fst ?F, \<lparr>runtime = snd ?F, stepIdx = min (int (length (steps program)) - 1) (i + 1),
                    tInStep = 0, playing = True\<rparr>)"
    using steps acc reach by (simp add: onTick_def Let_def split_beta c at t acts)
  obtain d where sh: "shifted n d (clearOverlay (advanceInterpolations P 1)) (clearOverlay ?A)"
    using midTick_next [OF mid shape] by blast
  have ovA: "measurementOverlay (snd ?A) \<noteq> None \<longrightarrow> list_ex isTwoPatchMeas acts"
    using ov by (simp add: overlay_advance_none overlay_clone)
  have ovP1: "measurementOverlay (snd (advanceInterpolations P 1)) \<noteq> None \<longrightarrow> list_ex isTwoPatchMeas acts"
    using ovP by (simp add: overlay_advance_none)
  have "snapshot ?F = snapshot (commitActions (advanceInterpolations P 1) acts)"
    using sh ovP1 ovA by (rule final_snapshots)
  then show ?thesis
    by (simp add: run observe_def)
qed

lemma runFrames_single: "runFrames program [d] hc = onTick program d hc"
  by (simp split: sum.splits)

lemma run_from_mid:
  assumes shape: "refShape n ks P"
    and at: "stepAt program i = Some st" and acts: "acts = actions st"
    and pos: "0 < tickMs program"
    and ovP: "measurementOverlay (snd P) \<noteq> None \<longrightarrow> list_ex isTwoPatchMeas acts"
  shows "\<forall>d \<in> set dts. 0 < d \<Longrightarrow> oneTick (tickMs program) acc dts
    \<Longrightarrow> 0 < acc \<Longrightarrow> midTick i acts n P acc hc
    \<Longrightarrow> observe (runFrames program dts hc) =
          Inr (snapshot (commitActions (advanceInterpolations P 1) acts),
               min (int (length (steps program)) - 1) (i + 1), 0)"
proof (induction dts arbitrary: acc hc)
  case Nil
  then show ?case by simp
next
  case (Cons d dts)
  obtain H c where hc: "hc = (H, c)" by (cases hc)
  have steps: "steps program \<noteq> []"
    using at by (auto simp: stepAt_def split: if_splits)
  have nz: "acc \<noteq> 0"
    using Cons.prems(3) by auto
  show ?case
  proof (cases dts)
    case Nil
    have reach: "tickMs program \<le> acc + d"
      using Cons.prems(2) Nil by simp
    have "runFrames program (d # dts) hc = onTick program d (H, c)"
      by (simp only: Nil hc runFrames_single)
    then show ?thesis
      using frame_final [OF Cons.prems(4) [unfolded hc] shape at acts nz pos reach ovP]
      by simp
  next
    case (Cons e ds)
    have less: "acc + d < tickMs program" and rest: "oneTick (tickMs program) (acc + d) dts"
      using Cons.prems(2) Cons by simp_all
    obtain hc' where run: "onTick program d hc = Inr hc'" and mid': "midTick i acts n P (acc + d) hc'"
      using frame_mid [OF Cons.prems(4) [unfolded hc] shape steps nz less]
      by (auto simp: hc)
    have "0 < acc + d"
      using Cons.prems(1,3) by (intro pos_add_double) simp_all
    then have "observe (runFrames program dts hc') =
          Inr (snapshot (commitActions (advanceInterpolations P 1) acts),
               min (int (length (steps program)) - 1) (i + 1), 0)"
      using Cons.IH [OF _ rest _ mid'] Cons.prems(1) by simp
    then show ?thesis
      by (simp add: run)
  qed
qed

lemma frame_first:
  assumes t0: "tInStep c = 0" and at: "stepAt program (stepIdx c) = Some st"
    and acts: "acts = actions st" and alloc: "allocated H (runtime c)"
    and less: "dt < tickMs program"
  shows "\<exists>hc'. onTick program dt (H, c\<lparr>playing := True\<rparr>) = Inr hc'
    \<and> midTick (stepIdx c) acts (nxt H) (prepareTick (cloneRuntimeState (H, runtime c)) acts) dt hc'"
proof -
  let ?P = "prepareTick (cloneRuntimeState (H, runtime c)) acts"
  let ?P' = "prepareTick (cloneRuntimeState (fst (cloneRuntimeState (H, runtime c)), runtime c)) acts"
  let ?t = "clamp01 (dt / tickMs program)"
  let ?A = "advanceInterpolations ?P' ?t"
  have steps: "steps program \<noteq> []"
    using at by (auto simp: stepAt_def split: if_splits)
  have run: "onTick program dt (H, c\<lparr>playing := True\<rparr>) =
      Inr (fst ?A, \<lparr>runtime = snd ?A, stepIdx = stepIdx c, tInStep = dt, playing = True\<rparr>)"
    using steps less [THEN not_le [THEN iffD2]] by (simp add: onTick_def Let_def split_beta t0 at acts)
  have "shifted (nxt H) (length (patches (runtime c))) ?P ?P'"
    using alloc by (rule shifted_prepared_twice)
  then have "shifted (nxt H) (length (patches (runtime c)))
      (clearOverlay (advanceInterpolations ?P ?t)) (clearOverlay ?A)"
    by (intro shifted_clearOverlay shifted_advance)
  moreover have "measurementOverlay (snd ?A) \<noteq> None \<longrightarrow> list_ex isTwoPatchMeas acts"
    using overlay_prepareTick_TwoPatchMeas [of _ acts] by (simp add: overlay_advance_none)
  ultimately have "midTick (stepIdx c) acts (nxt H) ?P dt
      (fst ?A, \<lparr>runtime = snd ?A, stepIdx = stepIdx c, tInStep = dt, playing = True\<rparr>)"
    by (auto simp: midTick_def)
  then show ?thesis
    using run by blast
qed

text \<open>
  One tick of the clock spread over any number of frames.  Take a cursor at the start of a
  step of the program, \<open>0 < tickMs\<close>, a runtime state whose map has each key once and
  whose patches have been allocated, and positive frame times with which the time in the
  step, added up by the clock callback in doubles, reaches \<open>tickMs\<close> at the last frame and
  not before.  Running the clock callback over these frames while playing leaves the same
  thing to see as the step control: the same snapshot of the committed state, the same
  step index, time 0 in the step.
\<close>

theorem frames_of_one_tick_equal_stepOnce:
  assumes "tInStep c = 0" and "0 < tickMs program"
    and "0 \<le> stepIdx c" and "stepIdx c < int (length (steps program))"
    and "allocated H (runtime c)" and "distinct (map fst (patches (runtime c)))"
    and "\<forall>d \<in> set dts. 0 < d" and "oneTick (tickMs program) 0 dts"
  shows "observe (runFrames program dts (H, c\<lparr>playing := True\<rparr>)) = observe (stepOnce program (H, c))"
proof -
  define st where "st = steps program ! nat (stepIdx c)"
  define acts where "acts = actions st"
  let ?P = "prepareTick (cloneRuntimeState (H, runtime c)) acts"
  let ?P' = "prepareTick (cloneRuntimeState (fst (cloneRuntimeState (H, runtime c)), runtime c)) acts"
  let ?F = "commitActions (advanceInterpolations ?P 1) acts"
  have at: "stepAt program (stepIdx c) = Some st"
    using assms(3,4) by (simp add: stepAt_def st_def)
  have steps: "steps program \<noteq> []"
    using assms(3,4) by auto
  have idx: "min (stepIdx c) (int (length (steps program)) - 1) = stepIdx c"
    using assms(4) by simp
  have S: "observe (stepOnce program (H, c)) =
      Inr (snapshot ?F, min (int (length (steps program)) - 1) (stepIdx c + 1), 0)"
    by (simp add: stepOnce_def idx at split_beta Let_def observe_def acts_def min.commute)
  have ovP: "measurementOverlay (snd ?P) \<noteq> None \<longrightarrow> list_ex isTwoPatchMeas acts"
    using overlay_prepareTick_TwoPatchMeas [of _ acts] by simp
  have ovP': "measurementOverlay (snd ?P') \<noteq> None \<longrightarrow> list_ex isTwoPatchMeas acts"
    using overlay_prepareTick_TwoPatchMeas [of _ acts] by simp
  have shape: "refShape (nxt H) (map fst (patches (runtime c))) ?P"
    using assms(6,5) by (rule refShape_prepared)
  obtain d rest where dts: "dts = d # rest"
    using assms(8) by (cases dts) auto
  show ?thesis
  proof (cases rest)
    case Nil
    have d: "tickMs program \<le> d"
      using assms(8) by (simp add: dts Nil)
    have t: "clamp01 (d / tickMs program) = 1"
      using assms(2) d by (rule clamp01_full)
    let ?F' = "commitActions (advanceInterpolations ?P' 1) acts"
    have run: "onTick program d (H, c\<lparr>playing := True\<rparr>) =
        Inr (fst ?F', \<lparr>runtime = snd ?F', stepIdx = min (int (length (steps program)) - 1) (stepIdx c + 1),
                       tInStep = 0, playing = True\<rparr>)"
      using steps d by (simp add: onTick_def Let_def split_beta assms(1) at t acts_def)
    have "shifted (nxt H) (length (patches (runtime c))) ?P ?P'"
      using assms(5) by (rule shifted_prepared_twice)
    then have "shifted (nxt H) (length (patches (runtime c)))
        (clearOverlay (advanceInterpolations ?P 1)) (clearOverlay (advanceInterpolations ?P' 1))"
      by (intro shifted_clearOverlay shifted_advance)
    then have "snapshot ?F' = snapshot ?F"
      using ovP ovP' by (intro final_snapshots) (simp_all add: overlay_advance_none)
    then have "observe (onTick program d (H, c\<lparr>playing := True\<rparr>)) =
        Inr (snapshot ?F, min (int (length (steps program)) - 1) (stepIdx c + 1), 0)"
      by (simp add: run observe_def)
    moreover have "runFrames program dts (H, c\<lparr>playing := True\<rparr>)
        = onTick program d (H, c\<lparr>playing := True\<rparr>)"
      by (simp only: dts Nil runFrames_single)
    ultimately show ?thesis
      by (simp add: S)
  next
    case (Cons e ds)
    have dpos: "0 < d" and rpos: "\<forall>x \<in> set rest. 0 < x"
      using assms(7) by (simp_all add: dts)
    have less: "d < tickMs program" and total: "oneTick (tickMs program) d rest"
      using assms(8) by (simp_all add: dts Cons)
    obtain hc' where run: "onTick program d (H, c\<lparr>playing := True\<rparr>) = Inr hc'"
      and mid: "midTick (stepIdx c) acts (nxt H) ?P d hc'"
      using frame_first [OF assms(1) at acts_def assms(5) less] by blast
    have "observe (runFrames program rest hc') =
        Inr (snapshot ?F, min (int (length (steps program)) - 1) (stepIdx c + 1), 0)"
      using run_from_mid [OF shape at acts_def assms(2) ovP rpos total dpos mid] .
    then show ?thesis
      by (simp add: dts run S)
  qed
qed

text \<open>
  The step \<open>approach\<close> of the demonstration program in three frames of 100, 250 and 350 ms.
\<close>

theorem frames_of_one_tick_equal_stepOnce_witness:
  "observe (runFrames demoProgram [dbl 100, dbl 250, dbl 350]
       (demoHeap, \<lparr>runtime = demoState, stepIdx = 1, tInStep = 0, playing = True\<rparr>))
     = observe (stepOnce demoProgram
       (demoHeap, \<lparr>runtime = demoState, stepIdx = 1, tInStep = 0, playing = False\<rparr>))"
proof -
  let ?c = "\<lparr>runtime = demoState, stepIdx = 1, tInStep = 0, playing = False\<rparr>"
  have h: "tInStep ?c = 0" "0 < tickMs demoProgram" "0 \<le> stepIdx ?c"
    "stepIdx ?c < int (length (steps demoProgram))" "allocated demoHeap (runtime ?c)"
    "distinct (map fst (patches (runtime ?c)))"
    by (simp_all add: demoProgram_def allocated_def demoState_def demoHeap_def less_double_iff)
  have f: "\<forall>d \<in> set [dbl 100, dbl 250, dbl 350]. 0 < d"
    "oneTick (tickMs demoProgram) 0 [dbl 100, dbl 250, dbl 350]"
    by (simp_all add: demoProgram_def double_arith)
  show ?thesis
    using frames_of_one_tick_equal_stepOnce [OF h f] by simp
qed

end
